theory Spec2Isabelle
  imports Complex_Main
begin

section \<open>Double-precision values\<close>

text \<open>
  The C++ type \<^verbatim>\<open>double\<close>, in IEEE 754 binary64 arithmetic.  A value is a finite
  number, one of the two infinities, or a NaN.  Sums, differences, products and quotients
  of finite values are the exact results rounded to the nearest binary64 number, ties to
  even: they lose precision, overflow to an infinity and underflow to a subnormal number
  or to zero as in the program.  A division by zero gives an infinity or a NaN, and a NaN
  compares false with everything.  The sign of zero is not part of the model (a zero
  divisor counts as \<open>+0\<close>), and a finite value of the type need not be a binary64 number
  itself: the ones that are, are the \<open>representable\<close> ones below.
\<close>

datatype double = Fin real | PInf | MInf | NaN

fun isfinite :: "double \<Rightarrow> bool" where
  "isfinite (Fin a) = True"
| "isfinite PInf = False"
| "isfinite MInf = False"
| "isfinite NaN = False"

text \<open>The infinity with the sign of a nonzero finite number.\<close>

definition signed_inf :: "real \<Rightarrow> double" where
  "signed_inf a = (if 0 < a then PInf else MInf)"

text \<open>Rounding to the nearest integer, ties to the even one.\<close>

definition round_half_even :: "real \<Rightarrow> int" where
  "round_half_even r =
    (let f = \<lfloor>r\<rfloor>; d = r - of_int f
     in if d < 1 / 2 then f else if 1 / 2 < d then f + 1 else if even f then f else f + 1)"

text \<open>
  The binary exponent of the unit in the last place at a nonzero real \<open>x\<close>: 52 below the
  exponent of \<open>x\<close> for the 53-bit significand, and never below \<open>-1074\<close>, the exponent of the
  smallest subnormal number.
\<close>

definition ulp_exponent :: "real \<Rightarrow> int" where
  "ulp_exponent x = max (- 1074) (\<lfloor>log 2 \<bar>x\<bar>\<rfloor> - 52)"

text \<open>
  The binary64 rounding of a real: the nearest multiple of the unit in the last place,
  ties to even, and an infinity when that is \<open>2 ^ 1024\<close> or more in magnitude.
\<close>

definition rnd :: "real \<Rightarrow> double" where
  "rnd x =
    (if x = 0 then Fin 0
     else (let e = ulp_exponent x;
               y = of_int (round_half_even (x / 2 powr of_int e)) * 2 powr of_int e
           in if 2 ^ 1024 \<le> \<bar>y\<bar> then signed_inf x else Fin y))"

text \<open>The values of the type that are binary64 numbers.\<close>

fun representable :: "double \<Rightarrow> bool" where
  "representable (Fin a) = (rnd a = Fin a)"
| "representable PInf = True"
| "representable MInf = True"
| "representable NaN = True"

instantiation double :: "{zero, one, uminus, plus, minus, times, inverse, abs, ord}"
begin

definition zero_double :: double where
  "zero_double = Fin 0"

definition one_double :: double where
  "one_double = Fin 1"

fun uminus_double :: "double \<Rightarrow> double" where
  "uminus_double (Fin a) = Fin (- a)"
| "uminus_double PInf = MInf"
| "uminus_double MInf = PInf"
| "uminus_double NaN = NaN"

fun plus_double :: "double \<Rightarrow> double \<Rightarrow> double" where
  "plus_double (Fin a) (Fin b) = rnd (a + b)"
| "plus_double NaN y = NaN"
| "plus_double x NaN = NaN"
| "plus_double PInf MInf = NaN"
| "plus_double MInf PInf = NaN"
| "plus_double PInf y = PInf"
| "plus_double MInf y = MInf"
| "plus_double x PInf = PInf"
| "plus_double x MInf = MInf"

definition minus_double :: "double \<Rightarrow> double \<Rightarrow> double" where
  "minus_double x y = x + (- y)"

fun times_double :: "double \<Rightarrow> double \<Rightarrow> double" where
  "times_double (Fin a) (Fin b) = rnd (a * b)"
| "times_double NaN y = NaN"
| "times_double x NaN = NaN"
| "times_double (Fin a) PInf = (if a = 0 then NaN else signed_inf a)"
| "times_double (Fin a) MInf = (if a = 0 then NaN else signed_inf (- a))"
| "times_double PInf (Fin b) = (if b = 0 then NaN else signed_inf b)"
| "times_double MInf (Fin b) = (if b = 0 then NaN else signed_inf (- b))"
| "times_double PInf PInf = PInf"
| "times_double PInf MInf = MInf"
| "times_double MInf PInf = MInf"
| "times_double MInf MInf = PInf"

fun divide_double :: "double \<Rightarrow> double \<Rightarrow> double" where
  "divide_double (Fin a) (Fin b) =
     (if b \<noteq> 0 then rnd (a / b) else if a = 0 then NaN else signed_inf a)"
| "divide_double NaN y = NaN"
| "divide_double x NaN = NaN"
| "divide_double (Fin a) PInf = Fin 0"
| "divide_double (Fin a) MInf = Fin 0"
| "divide_double PInf (Fin b) = (if 0 \<le> b then PInf else MInf)"
| "divide_double MInf (Fin b) = (if 0 \<le> b then MInf else PInf)"
| "divide_double PInf PInf = NaN"
| "divide_double PInf MInf = NaN"
| "divide_double MInf PInf = NaN"
| "divide_double MInf MInf = NaN"

definition inverse_double :: "double \<Rightarrow> double" where
  "inverse_double x = divide (Fin 1) x"

text \<open>\<^verbatim>\<open>std::fabs\<close>.\<close>

fun abs_double :: "double \<Rightarrow> double" where
  "abs_double (Fin a) = Fin \<bar>a\<bar>"
| "abs_double PInf = PInf"
| "abs_double MInf = PInf"
| "abs_double NaN = NaN"

text \<open>The comparison \<^verbatim>\<open>a < b\<close> of two doubles: false as soon as one is a NaN.\<close>

fun less_double :: "double \<Rightarrow> double \<Rightarrow> bool" where
  "less_double (Fin a) (Fin b) = (a < b)"
| "less_double NaN y = False"
| "less_double x NaN = False"
| "less_double x MInf = False"
| "less_double PInf y = False"
| "less_double MInf y = True"
| "less_double x PInf = True"

definition less_eq_double :: "double \<Rightarrow> double \<Rightarrow> bool" where
  "less_eq_double x y = (x < y \<or> (x = y \<and> x \<noteq> NaN))"

instance ..

end

text \<open>\<^verbatim>\<open>a != b\<close>: a NaN differs from everything, itself included.\<close>

definition dne :: "double \<Rightarrow> double \<Rightarrow> bool" where
  "dne x y = (x = NaN \<or> y = NaN \<or> x \<noteq> y)"

text \<open>\<^verbatim>\<open>std::max(a, b)\<close> is \<^verbatim>\<open>(a < b) ? b : a\<close> and \<^verbatim>\<open>std::min(a, b)\<close> is
  \<^verbatim>\<open>(b < a) ? b : a\<close>.\<close>

definition dmax :: "double \<Rightarrow> double \<Rightarrow> double" where
  "dmax a b = (if a < b then b else a)"

definition dmin :: "double \<Rightarrow> double \<Rightarrow> double" where
  "dmin a b = (if b < a then b else a)"

text \<open>
  \<^verbatim>\<open>*std::min_element(first, last)\<close> and \<^verbatim>\<open>*std::max_element(first, last)\<close>: the
  scan keeps the first smallest (largest) element, replacing it when a later element
  compares strictly below (above) it.  On an empty range the C++ dereferences the end
  iterator, which is undefined; the model reads \<open>hd []\<close> there.
\<close>

definition min_element :: "double list \<Rightarrow> double" where
  "min_element xs = fold (\<lambda>x smallest. if x < smallest then x else smallest) (tl xs) (hd xs)"

definition max_element :: "double list \<Rightarrow> double" where
  "max_element xs = fold (\<lambda>x largest. if largest < x then x else largest) (tl xs) (hd xs)"

section \<open>Convergence metrics\<close>

text \<open>
  \<^verbatim>\<open>computeFluxPressChanges\<close>.  The three loops run over the indices of the current
  vectors and read the start vectors at the same index.
\<close>

definition computeFluxPressChanges ::
  "double list \<Rightarrow> double list \<Rightarrow> double list \<Rightarrow> double list \<Rightarrow> double list \<Rightarrow> double list
   \<Rightarrow> double \<times> double" where
  "computeFluxPressChanges face_flux well_perf_fluxes cell_pressure_scalar
       start_face_flux start_perf_flux start_cell_press =
    (let num_faces = length face_flux;
         num_perf = length well_perf_fluxes;
         num_cells = length cell_pressure_scalar;
         max_flux_face = dmax \<bar>min_element face_flux\<bar> \<bar>max_element face_flux\<bar>;
         max_flux_perf = (if num_perf = 0 then (0::double)
                          else dmax \<bar>min_element well_perf_fluxes\<bar> \<bar>max_element well_perf_fluxes\<bar>);
         max_flux = dmax max_flux_face max_flux_perf;
         max_press = dmax \<bar>min_element cell_pressure_scalar\<bar> \<bar>max_element cell_pressure_scalar\<bar>;
         flux_change_infnorm = fold (\<lambda>face m. dmax m \<bar>face_flux ! face - start_face_flux ! face\<bar>)
                                 [0..<num_faces] (0::double);
         flux_change_infnorm = fold (\<lambda>perf m. dmax m \<bar>well_perf_fluxes ! perf - start_perf_flux ! perf\<bar>)
                                 [0..<num_perf] flux_change_infnorm;
         press_change_infnorm = fold (\<lambda>cell m. dmax m \<bar>cell_pressure_scalar ! cell - start_cell_press ! cell\<bar>)
                                 [0..<num_cells] (0::double);
         flux_rel_difference = (flux_change_infnorm :: double) / max_flux;
         press_rel_difference = (press_change_infnorm :: double) / max_press
     in (flux_rel_difference, press_rel_difference))"

section \<open>Phase vectors\<close>

text \<open>
  \<^verbatim>\<open>PhaseVec\<close> and \<^verbatim>\<open>CompVec\<close> are fixed-size vectors of doubles, of \<^verbatim>\<open>numPhases\<close>
  and \<^verbatim>\<open>numComponents\<close> entries.  \<^verbatim>\<open>PhaseVec(s)\<close> fills every entry with \<open>s\<close>,
  \<^verbatim>\<open>v *= s\<close> scales every entry, \<^verbatim>\<open>a += b\<close> adds entry by entry.
\<close>

type_synonym phasevec = "double list"
type_synonym compvec = "double list"

definition pv_const :: "nat \<Rightarrow> double \<Rightarrow> phasevec" where
  "pv_const np s = replicate np s"

definition pv_scale :: "nat \<Rightarrow> phasevec \<Rightarrow> double \<Rightarrow> phasevec" where
  "pv_scale np v s = map (\<lambda>i. v ! i * s) [0..<np]"

definition pv_add :: "nat \<Rightarrow> phasevec \<Rightarrow> phasevec \<Rightarrow> phasevec" where
  "pv_add np a b = map (\<lambda>i. a ! i + b ! i) [0..<np]"

section \<open>Well perforation pressures\<close>

text \<open>
  \<^verbatim>\<open>computeWellPerfPressures\<close>.  \<open>np\<close> is \<^verbatim>\<open>numPhases\<close>, \<open>num_wells\<close> is
  \<^verbatim>\<open>pwells_->numWells()\<close>; \<open>perf_wells\<close> and \<open>perf_sat\<close> are the members
  \<^verbatim>\<open>perf_wells_\<close> and \<^verbatim>\<open>perf_sat_\<close>.  The first loop adds every perforation's flux
  and flux-scaled saturation to its well.
\<close>

definition well_accumulate ::
  "nat \<Rightarrow> nat list \<Rightarrow> phasevec list \<Rightarrow> double list \<Rightarrow> nat
   \<Rightarrow> double list \<times> phasevec list \<Rightarrow> double list \<times> phasevec list" where
  "well_accumulate np perf_wells perf_sat well_perf_fluxes perf acc =
    (let well_flux = fst acc;
         well_sat = snd acc;
         well = perf_wells ! perf;
         flux = well_perf_fluxes ! perf;
         well_flux = well_flux[well := well_flux ! well + flux];
         tmp = perf_sat ! perf;
         tmp = pv_scale np tmp flux;
         well_sat = well_sat[well := pv_add np (well_sat ! well) tmp]
     in (well_flux, well_sat))"

text \<open>The averaged saturations of the wells: the second loop scales each well's sum by
  \<^verbatim>\<open>1.0/well_flux[well]\<close>.\<close>

definition well_average_saturations ::
  "nat \<Rightarrow> nat \<Rightarrow> nat list \<Rightarrow> phasevec list \<Rightarrow> double list \<Rightarrow> phasevec list" where
  "well_average_saturations np num_wells perf_wells perf_sat well_perf_fluxes =
    (let num_perf = length well_perf_fluxes;
         well_sat = replicate num_wells (pv_const np 0);
         well_flux = replicate num_wells (0::double);
         acc = fold (well_accumulate np perf_wells perf_sat well_perf_fluxes) [0..<num_perf]
                 (well_flux, well_sat);
         well_flux = fst acc;
         well_sat = snd acc
     in fold (\<lambda>well well_sat. well_sat[well := pv_scale np (well_sat ! well) (1 / well_flux ! well)])
          [0..<num_wells] well_sat)"

definition computeWellPerfPressures ::
  "nat \<Rightarrow> nat \<Rightarrow> nat list \<Rightarrow> phasevec list \<Rightarrow> double list \<Rightarrow> double list \<Rightarrow> double list
   \<Rightarrow> double list \<Rightarrow> double list" where
  "computeWellPerfPressures np num_wells perf_wells perf_sat
       well_perf_fluxes well_bhp wellperf_gpot well_perf_pressures =
    (let num_perf = length well_perf_fluxes;
         well_sat = well_average_saturations np num_wells perf_wells perf_sat well_perf_fluxes
     in fold (\<lambda>perf well_perf_pressures.
                (let well_perf_pressures = well_perf_pressures[perf := well_bhp ! (perf_wells ! perf)];
                     sat = well_sat ! (perf_wells ! perf)
                 in fold (\<lambda>phase well_perf_pressures.
                            well_perf_pressures[perf := well_perf_pressures ! perf
                               + sat ! phase * wellperf_gpot ! (np * perf + phase)])
                      [0..<np] well_perf_pressures))
          [0..<num_perf] well_perf_pressures)"

section \<open>The solver object and its collaborators\<close>

text \<open>\<^verbatim>\<open>FluidInterface::FluidState\<close>, as far as the solver reads it.\<close>

record fluid_state =
  saturation :: phasevec
  mobility :: phasevec
  phase_to_comp :: "double list"

text \<open>\<^verbatim>\<open>FluidInterface::FluidData\<close> (the member \<^verbatim>\<open>fp_\<close>): the per-cell and per-face
  arrays the solver reads.\<close>

record fluid_data =
  totcompr :: "double list"
  voldiscr :: "double list"
  relvoldiscr :: "double list"
  cellA :: "double list"
  faceA :: "double list"
  phasemobf :: "double list"
  phasemobf_deriv :: "double list"
  gravcapf :: "double list"
  totphasevol_density :: "double list"
  expjacterm :: "double list"

text \<open>\<^verbatim>\<open>PressureSolver::LinearSystem\<close>: a sparse matrix in compressed-row form, the
  right-hand side and the solution vector.  The C++ structure points into the storage of
  the pressure solver, so the system is a part of the solver's state.\<close>

record linear_system =
  ls_n :: nat
  ls_nnz :: nat
  ls_ia :: "nat list"
  ls_ja :: "nat list"
  ls_sa :: "double list"
  ls_b :: "double list"
  ls_x :: "double list"

record 'ps pressure_solver =
  ps_system :: linear_system
  ps_rest :: 'ps

text \<open>\<^verbatim>\<open>LinearSolverISTL::LinearSolverResults\<close>.\<close>

record solver_results =
  converged :: bool
  iterations :: int
  reduction :: double

datatype FlowBCTypes = FBC_UNSET | FBC_PRESSURE | FBC_FLUX

text \<open>
  The collaborators the class is instantiated with and holds pointers to: the fluid, the
  grid, the rock, the wells, the fluid-data evaluator \<^verbatim>\<open>fp_.compute\<close>, the pressure
  solver \<^verbatim>\<open>psolver_\<close> and the linear solver \<^verbatim>\<open>linsolver_\<close>.  Their code is outside this
  class, so they are parameters of the model.  Counts and indices are natural numbers.
\<close>

record 'ps env =
  numPhases :: nat
  numComponents :: nat
  Liquid :: nat
  computeState :: "phasevec \<Rightarrow> compvec \<Rightarrow> fluid_state"
  phaseDensities :: "double list \<Rightarrow> phasevec"
  surfaceDensities :: "double list"
  numCells :: nat
  numFaces :: nat
  cellCentroid :: "nat \<Rightarrow> double list"
  cellVolume :: "nat \<Rightarrow> double"
  porosity :: "nat \<Rightarrow> double"
  numWells :: nat
  wellIsInjector :: "nat \<Rightarrow> bool"
  numPerforations :: "nat \<Rightarrow> nat"
  wellCell :: "nat \<Rightarrow> nat \<Rightarrow> nat"
  injectionMixture :: "nat \<Rightarrow> compvec"
  referenceDepth :: "nat \<Rightarrow> double"
  fp_compute :: "fluid_data \<Rightarrow> double list \<Rightarrow> phasevec list \<Rightarrow> phasevec list \<Rightarrow> compvec list
                 \<Rightarrow> compvec \<Rightarrow> double \<Rightarrow> fluid_data"
  assemble :: "double list \<Rightarrow> FlowBCTypes list \<Rightarrow> double list \<Rightarrow> double
               \<Rightarrow> double list \<Rightarrow> double list \<Rightarrow> double list \<Rightarrow> double list
               \<Rightarrow> double list \<Rightarrow> double list \<Rightarrow> double list
               \<Rightarrow> double list \<Rightarrow> double list
               \<Rightarrow> double list \<Rightarrow> double list
               \<Rightarrow> 'ps pressure_solver \<Rightarrow> 'ps pressure_solver"
  computePressuresAndFluxes :: "'ps pressure_solver
               \<Rightarrow> double list \<times> double list \<times> double list \<times> double list \<times> double list"
  linsolver_solve :: "nat \<Rightarrow> nat \<Rightarrow> nat list \<Rightarrow> nat list \<Rightarrow> double list \<Rightarrow> double list
               \<Rightarrow> double list \<Rightarrow> solver_results \<times> double list"

text \<open>The members written by \<^verbatim>\<open>init\<close> and \<^verbatim>\<open>setup\<close> and only read afterwards.  A
  member \<^verbatim>\<open>name_\<close> of the class is the field \<open>name\<close> here and in the records below.\<close>

record config =
  inflow_mixture :: compvec
  flux_rel_tol :: double
  press_rel_tol :: double
  max_num_iter :: int
  max_relative_voldiscr :: double
  relax_time_voldiscr :: double
  relax_weight_pressure_iteration :: double
  experimental_jacobian :: bool
  output_residual :: bool
  gravity :: "double list"
  bctypes :: "FlowBCTypes list"
  bcvalues :: "double list"
  perf_wells :: "nat list"
  perf_cells :: "nat list"

text \<open>The calls to the fluid-data evaluator, the assembler, the linear solver and the
  back-substitution, in the order they are made.\<close>

datatype call = CallFluidProps | CallAssemble | CallLinearSolve | CallPressuresAndFluxes

text \<open>
  What \<^verbatim>\<open>solve\<close> changes: its in-out arguments, the members it writes, its local
  vectors, and the record of the collaborator calls.
\<close>

record 'ps state =
  cell_pressure :: "phasevec list"
  face_pressure :: "phasevec list"
  face_flux :: "double list"
  well_perf_pressures :: "double list"
  well_perf_fluxes :: "double list"
  fp :: fluid_data
  psolver :: "'ps pressure_solver"
  perf_pressure :: "double list"
  perf_A :: "double list"
  perf_mob :: "double list"
  perf_sat :: "phasevec list"
  perf_gpot :: "double list"
  cell_pressure_scalar :: "double list"
  initial_voldiscr :: "double list"
  face_pressure_scalar :: "double list"
  start_face_flux :: "double list"
  start_face_pressure :: "double list"
  start_cell_press :: "double list"
  well_bhp :: "double list"
  start_perf_flux :: "double list"
  calls :: "call list"

datatype ReturnCode = SolveOk | VolumeDiscrepancyTooLarge | FailedToConverge

text \<open>The exception of \<^verbatim>\<open>THROW\<close> after a linear solve that did not converge.\<close>

datatype failure = LinearSolverFailed

text \<open>How one pass through the loop body ends: it falls through to the next iteration,
  returns a code, or throws.\<close>

datatype 'a step = Continue 'a | Return ReturnCode 'a | Throw failure 'a

section \<open>Vector helpers\<close>

text \<open>\<^verbatim>\<open>v.resize(k)\<close> of a vector of doubles: cut, or filled up with \<open>0.0\<close>.\<close>

definition resize :: "nat \<Rightarrow> double list \<Rightarrow> double list" where
  "resize k xs = take k xs @ replicate (k - length xs) 0"

text \<open>\<^verbatim>\<open>std::copy(src, src + k, &dst[off])\<close>.\<close>

definition copy_n :: "nat \<Rightarrow> double list \<Rightarrow> double list \<Rightarrow> nat \<Rightarrow> double list" where
  "copy_n k src dst off = fold (\<lambda>i dst. dst[off + i := src ! i]) [0..<k] dst"

section \<open>Fluid properties\<close>

text \<open>The body of the perforation loop of \<^verbatim>\<open>computeFluidProps\<close>: \<open>perf\<close> counts the
  perforations of the current well, \<open>perfcount\<close> all perforations so far.  The
  \<^verbatim>\<open>ASSERT\<close> macros of the class are compiled out and are not part of the model.\<close>

definition computeFluidProps_perf ::
  "'ps env \<Rightarrow> phasevec list \<Rightarrow> compvec list \<Rightarrow> bool \<Rightarrow> nat \<Rightarrow> nat
   \<Rightarrow> nat \<times> 'ps state \<Rightarrow> nat \<times> 'ps state" where
  "computeFluidProps_perf env phase_pressure cell_z is_inj well perf acc =
    (let perfcount = fst acc;
         st = snd acc;
         np = numPhases env;
         nc = numComponents env;
         cell = wellCell env well perf;
         well_pressure = (if is_inj then pv_const np (perf_pressure st ! perf) else phase_pressure ! cell);
         well_mixture = (if is_inj then injectionMixture env cell else cell_z ! cell);
         state = computeState env well_pressure well_mixture;
         st = st\<lparr>perf_A := copy_n (nc * np) (phase_to_comp state) (perf_A st) (perfcount * np * nc)\<rparr>;
         st = st\<lparr>perf_mob := copy_n np (mobility state) (perf_mob st) (perfcount * np)\<rparr>;
         st = st\<lparr>perf_sat := (perf_sat st)[perfcount := saturation state]\<rparr>
     in (perfcount + 1, st))"

definition computeFluidProps ::
  "'ps env \<Rightarrow> config \<Rightarrow> phasevec list \<Rightarrow> phasevec list \<Rightarrow> compvec list \<Rightarrow> double
   \<Rightarrow> 'ps state \<Rightarrow> 'ps state" where
  "computeFluidProps env cfg phase_pressure phase_pressure_face cell_z dt st =
    (let st = st\<lparr>fp := fp_compute env (fp st) (gravity cfg) phase_pressure phase_pressure_face
                            cell_z (inflow_mixture cfg) dt,
                  calls := calls st @ [CallFluidProps]\<rparr>;
         num_wells = numWells env
     in snd (fold (\<lambda>well acc.
                (let is_inj = wellIsInjector env well;
                     num_perf = numPerforations env well
                 in fold (computeFluidProps_perf env phase_pressure cell_z is_inj well) [0..<num_perf] acc))
              [0..<num_wells] (0, st)))"

section \<open>Well potentials\<close>

text \<open>\<^verbatim>\<open>computeWellPotentials\<close>: the gravity potential \<open>\<rho> g h\<close> of each phase at each
  perforation.\<close>

definition computeWellPotentials ::
  "'ps env \<Rightarrow> config \<Rightarrow> 'ps state \<Rightarrow> double list \<Rightarrow> double list" where
  "computeWellPotentials env cfg st wellperf_gpot =
    (let np = numPhases env;
         nc = numComponents env;
         num_perf = length (perf_cells cfg);
         wellperf_gpot = resize (num_perf * np) wellperf_gpot
     in fold (\<lambda>perf wellperf_gpot.
                (let well = perf_wells cfg ! perf;
                     cell = perf_cells cfg ! perf;
                     pos = cellCentroid env cell;
                     depth_delta = pos ! 2 - referenceDepth env well;
                     gh = gravity cfg ! 2 * depth_delta;
                     At = drop (perf * np * nc) (perf_A st);
                     rho = phaseDensities env At
                 in fold (\<lambda>phase wellperf_gpot. wellperf_gpot[np * perf + phase := rho ! phase * gh])
                      [0..<np] wellperf_gpot))
          [0..<num_perf] wellperf_gpot)"

section \<open>The quasi-Newton residual and Jacobian\<close>

text \<open>\<^verbatim>\<open>computeLinearResidual\<close>: \<open>res = A x - b\<close> for the matrix in compressed-row form.\<close>

definition computeLinearResidual :: "linear_system \<Rightarrow> double list \<Rightarrow> double list" where
  "computeLinearResidual s res =
    (let res = resize (ls_n s) res
     in fold (\<lambda>row res.
                (let res = res[row := - (ls_b s ! row)]
                 in fold (\<lambda>i res. res[row := res ! row + ls_sa s ! i * ls_x s ! (ls_ja s ! i)])
                      [ls_ia s ! row ..< ls_ia s ! (row + 1)] res))
          [0..<ls_n s] res)"

text \<open>
  \<^verbatim>\<open>computeResidualJacobian\<close>.  The assembled system lives in the pressure solver;
  the writes through \<^verbatim>\<open>linsys.x\<close> and \<^verbatim>\<open>linsys.sa\<close> change it there.  The result is the
  new state and the residual \<open>res\<close>.
\<close>

definition computeResidualJacobian ::
  "'ps env \<Rightarrow> config \<Rightarrow> double list \<Rightarrow> double list \<Rightarrow> double list \<Rightarrow> double list
   \<Rightarrow> double list \<Rightarrow> double \<Rightarrow> double list \<Rightarrow> 'ps state \<Rightarrow> 'ps state \<times> double list" where
  "computeResidualJacobian env cfg init_voldiscr cell_press cell_press_initial bhp src dt res st =
    (let st = st\<lparr>psolver := assemble env src (bctypes cfg) (bcvalues cfg) dt
                     (totcompr (fp st)) init_voldiscr (cellA (fp st)) (faceA (fp st))
                     (perf_A st) (phasemobf (fp st)) (perf_mob st)
                     cell_press_initial (gravcapf (fp st))
                     (perf_gpot st) (surfaceDensities env) (psolver st),
                  calls := calls st @ [CallAssemble]\<rparr>;
         linsys = ps_system (psolver st);
         num_cells = numCells env;
         linsys = linsys\<lparr>ls_x := copy_n (length cell_press) cell_press (ls_x linsys) 0\<rparr>;
         linsys = linsys\<lparr>ls_x := copy_n (length bhp) bhp (ls_x linsys) num_cells\<rparr>;
         res = computeLinearResidual linsys res;
         res = fold (\<lambda>cell res.
                  (let dres = totcompr (fp st) ! cell * (cell_press ! cell - cell_press_initial ! cell);
                       dres = dres - (1 - totphasevol_density (fp st) ! cell);
                       dres = dres * (cellVolume env cell * porosity env cell / dt)
                   in res[cell := res ! cell - dres]))
                [0..<num_cells] res;
         sa = fold (\<lambda>cell sa.
                  fold (\<lambda>i sa.
                     (if ls_ja linsys ! i = cell
                      then (let sa = sa[i := sa ! i
                                       - totcompr (fp st) ! cell * cellVolume env cell * porosity env cell / dt]
                            in sa[i := sa ! i
                                       + expjacterm (fp st) ! cell * cellVolume env cell * porosity env cell / dt])
                      else sa))
                    [ls_ia linsys ! cell ..< ls_ia linsys ! (cell + 1)] sa)
                [0..<num_cells] (ls_sa linsys);
         linsys = linsys\<lparr>ls_sa := sa\<rparr>
     in (st\<lparr>psolver := (psolver st)\<lparr>ps_system := linsys\<rparr>\<rparr>, res))"

section \<open>The nonlinear iteration\<close>

text \<open>The copies taken at the top of the loop body.\<close>

definition snapshot :: "'ps state \<Rightarrow> 'ps state" where
  "snapshot st =
     st\<lparr>start_face_flux := face_flux st,
        start_face_pressure := face_pressure_scalar st,
        start_cell_press := cell_pressure_scalar st,
        start_perf_flux := well_perf_fluxes st\<rparr>"

text \<open>The initialization for the first iteration only: the volume discrepancy check, the
  scaling of the initial discrepancy and the well potentials.\<close>

definition first_iteration :: "'ps env \<Rightarrow> config \<Rightarrow> double \<Rightarrow> int \<Rightarrow> 'ps state \<Rightarrow> 'ps state step" where
  "first_iteration env cfg dt iter st =
    (if iter = 0 then
       (let st = st\<lparr>initial_voldiscr := voldiscr (fp st)\<rparr>;
            rel_voldiscr = max_element (relvoldiscr (fp st))
        in if max_relative_voldiscr cfg < rel_voldiscr
           then Return VolumeDiscrepancyTooLarge st
           else (let st = (if 0 < relax_time_voldiscr cfg
                           then (let relax = dmin 1 (dt / relax_time_voldiscr cfg)
                                 in st\<lparr>initial_voldiscr := map (\<lambda>v. relax * v) (initial_voldiscr st)\<rparr>)
                           else st)
                 in Continue (st\<lparr>perf_gpot := computeWellPotentials env cfg st (perf_gpot st)\<rparr>)))
     else Continue st)"

text \<open>
  The linear system and its solution, on the quasi-Newton path
  (\<^verbatim>\<open>experimental_jacobian_\<close>) or on the standard path.  The file written under
  \<^verbatim>\<open>output_residual_\<close> and the text printed are not part of the model.
\<close>

definition linearize ::
  "'ps env \<Rightarrow> config \<Rightarrow> double list \<Rightarrow> double \<Rightarrow> double list \<Rightarrow> nat \<Rightarrow> 'ps state \<Rightarrow> 'ps state step" where
  "linearize env cfg src dt cell_pressure_scalar_initial num_cells st =
    (if experimental_jacobian cfg then
       (let rj = computeResidualJacobian env cfg (initial_voldiscr st) (cell_pressure_scalar st)
                   cell_pressure_scalar_initial (well_bhp st) src dt [] st;
            st = fst rj;
            res = snd rj;
            s = ps_system (psolver st);
            sol = linsolver_solve env (ls_n s) (ls_nnz s) (ls_ia s) (ls_ja s) (ls_sa s) res (ls_x s);
            result = fst sol;
            s = s\<lparr>ls_x := snd sol\<rparr>;
            st = st\<lparr>psolver := (psolver st)\<lparr>ps_system := s\<rparr>, calls := calls st @ [CallLinearSolve]\<rparr>
        in if \<not> converged result then Throw LinearSolverFailed st
           else (let x = fold (\<lambda>cell x. x[cell := cell_pressure_scalar st ! cell - x ! cell])
                           [0..<num_cells] (ls_x s);
                     x = fold (\<lambda>well x. x[num_cells + well := well_bhp st ! well - x ! (num_cells + well)])
                           [0..<numWells env] x
                 in Continue (st\<lparr>psolver := (psolver st)\<lparr>ps_system := s\<lparr>ls_x := x\<rparr>\<rparr>\<rparr>)))
     else
       (let st = st\<lparr>psolver := assemble env src (bctypes cfg) (bcvalues cfg) dt
                        (totcompr (fp st)) (initial_voldiscr st) (cellA (fp st)) (faceA (fp st))
                        (perf_A st) (phasemobf (fp st)) (perf_mob st)
                        cell_pressure_scalar_initial (gravcapf (fp st))
                        (perf_gpot st) (surfaceDensities env) (psolver st),
                     calls := calls st @ [CallAssemble]\<rparr>;
            s = ps_system (psolver st);
            sol = linsolver_solve env (ls_n s) (ls_nnz s) (ls_ia s) (ls_ja s) (ls_sa s) (ls_b s) (ls_x s);
            res = fst sol;
            s = s\<lparr>ls_x := snd sol\<rparr>;
            st = st\<lparr>psolver := (psolver st)\<lparr>ps_system := s\<rparr>, calls := calls st @ [CallLinearSolve]\<rparr>
        in if \<not> converged res then Throw LinearSolverFailed st
           else Continue st))"

text \<open>\<^verbatim>\<open>psolver_.computePressuresAndFluxes\<close> fills the five vectors.\<close>

definition back_substitute :: "'ps env \<Rightarrow> 'ps state \<Rightarrow> 'ps state" where
  "back_substitute env st =
    (case computePressuresAndFluxes env (psolver st) of
       (cell_press, face_press, flux, bhp, perf_fluxes) \<Rightarrow>
         st\<lparr>cell_pressure_scalar := cell_press,
            face_pressure_scalar := face_press,
            face_flux := flux,
            well_bhp := bhp,
            well_perf_fluxes := perf_fluxes,
            calls := calls st @ [CallPressuresAndFluxes]\<rparr>)"

text \<open>The relaxation block.\<close>

definition relaxation :: "config \<Rightarrow> nat \<Rightarrow> nat \<Rightarrow> int \<Rightarrow> 'ps state \<Rightarrow> 'ps state" where
  "relaxation cfg num_cells num_faces iter st =
    (if dne (relax_weight_pressure_iteration cfg) 1 then
       (let ww = relax_weight_pressure_iteration cfg;
            st = st\<lparr>cell_pressure_scalar :=
                   fold (\<lambda>cell cps. cps[cell := ww * cps ! cell + (1 - ww) * start_cell_press st ! cell])
                     [0..<num_cells] (cell_pressure_scalar st)\<rparr>
        in if 0 < iter then
             fold (\<lambda>face st.
                     (let st = st\<lparr>face_pressure_scalar := (face_pressure_scalar st)
                                 [face := ww * face_pressure_scalar st ! face
                                          + (1 - ww) * start_face_pressure st ! face]\<rparr>
                      in st\<lparr>face_flux := (face_flux st)
                                 [face := ww * face_flux st ! face + (1 - ww) * start_face_flux st ! face]\<rparr>))
               [0..<num_faces] st
           else st)
     else st)"

text \<open>The copy to the phase pressures and the update of the perforation pressures.\<close>

definition publish :: "'ps env \<Rightarrow> config \<Rightarrow> nat \<Rightarrow> nat \<Rightarrow> 'ps state \<Rightarrow> 'ps state" where
  "publish env cfg num_cells num_faces st =
    (let np = numPhases env;
         st = st\<lparr>cell_pressure :=
                fold (\<lambda>cell cp. cp[cell := pv_const np (cell_pressure_scalar st ! cell)])
                  [0..<num_cells] (cell_pressure st)\<rparr>;
         st = st\<lparr>face_pressure :=
                fold (\<lambda>face fp. fp[face := pv_const np (face_pressure_scalar st ! face)])
                  [0..<num_faces] (face_pressure st)\<rparr>;
         st = st\<lparr>well_perf_pressures :=
                computeWellPerfPressures np (numWells env) (perf_wells cfg) (perf_sat st)
                  (well_perf_fluxes st) (well_bhp st) (perf_gpot st) (well_perf_pressures st)\<rparr>
     in st\<lparr>perf_pressure := well_perf_pressures st\<rparr>)"

text \<open>The relative changes and the test for convergence.\<close>

definition convergence_test :: "config \<Rightarrow> 'ps state \<Rightarrow> 'ps state step" where
  "convergence_test cfg st =
    (let rel_changes = computeFluxPressChanges (face_flux st) (well_perf_fluxes st) (cell_pressure_scalar st)
                         (start_face_flux st) (start_perf_flux st) (start_cell_press st);
         flux_rel_difference = fst rel_changes;
         press_rel_difference = snd rel_changes
     in if flux_rel_difference < flux_rel_tol cfg \<or> press_rel_difference < press_rel_tol cfg
        then Return SolveOk st
        else Continue st)"

text \<open>The top of the loop body: the copies, the fluid properties, the first-iteration
  initialization.\<close>

definition iteration_prologue ::
  "'ps env \<Rightarrow> config \<Rightarrow> compvec list \<Rightarrow> double \<Rightarrow> int \<Rightarrow> 'ps state \<Rightarrow> 'ps state step" where
  "iteration_prologue env cfg cell_z dt iter st =
    (let st = snapshot st;
         st = computeFluidProps env cfg (cell_pressure st) (face_pressure st) cell_z dt st
     in first_iteration env cfg dt iter st)"

text \<open>One pass through the body of the main iteration loop.\<close>

definition solve_iteration ::
  "'ps env \<Rightarrow> config \<Rightarrow> compvec list \<Rightarrow> double list \<Rightarrow> double \<Rightarrow> double list \<Rightarrow> int
   \<Rightarrow> 'ps state \<Rightarrow> 'ps state step" where
  "solve_iteration env cfg cell_z src dt cell_pressure_scalar_initial iter st =
    (let num_cells = length cell_z;
         num_faces = numFaces env
     in case iteration_prologue env cfg cell_z dt iter st of
          Continue st \<Rightarrow>
            (case linearize env cfg src dt cell_pressure_scalar_initial num_cells st of
               Continue st \<Rightarrow>
                 (let st = back_substitute env st;
                      st = relaxation cfg num_cells num_faces iter st;
                      st = publish env cfg num_cells num_faces st
                  in convergence_test cfg st)
             | Return code st \<Rightarrow> Return code st
             | Throw e st \<Rightarrow> Throw e st)
        | Return code st \<Rightarrow> Return code st
        | Throw e st \<Rightarrow> Throw e st)"

text \<open>
  The main iteration loop.  The result is the exception or the return code, the value
  of \<^verbatim>\<open>iter\<close> when the loop is left, and the final state.
\<close>

function solve_loop ::
  "'ps env \<Rightarrow> config \<Rightarrow> compvec list \<Rightarrow> double list \<Rightarrow> double \<Rightarrow> double list \<Rightarrow> int
   \<Rightarrow> 'ps state \<Rightarrow> (failure + ReturnCode) \<times> int \<times> 'ps state" where
  "solve_loop env cfg cell_z src dt cell_pressure_scalar_initial iter st =
    (if iter < max_num_iter cfg then
       (case solve_iteration env cfg cell_z src dt cell_pressure_scalar_initial iter st of
          Continue st' \<Rightarrow> solve_loop env cfg cell_z src dt cell_pressure_scalar_initial (iter + 1) st'
        | Return code st' \<Rightarrow> (Inr code, iter, st')
        | Throw e st' \<Rightarrow> (Inl e, iter, st'))
     else (Inr FailedToConverge, iter, st))"
  by pat_completeness auto
termination
  by (relation "measure (\<lambda>(env, cfg, cell_z, src, dt, cpsi, iter, st). nat (max_num_iter cfg - iter))") auto

text \<open>
  \<^verbatim>\<open>solve\<close>.  The state \<open>st\<close> holds the in-out arguments and the members at the call.
  The code before the loop sets up the local vectors; the record of calls starts empty.
\<close>

definition initial_cell_pressure :: "'ps env \<Rightarrow> compvec list \<Rightarrow> 'ps state \<Rightarrow> double list" where
  "initial_cell_pressure env cell_z st =
    (let num_cells = length cell_z
     in map (\<lambda>cell. cell_pressure st ! cell ! Liquid env) [0..<num_cells])"

definition solve_init :: "'ps env \<Rightarrow> compvec list \<Rightarrow> 'ps state \<Rightarrow> 'ps state" where
  "solve_init env cell_z st =
    (let st = st\<lparr>perf_pressure := well_perf_pressures st\<rparr>;
         cell_pressure_scalar_initial = initial_cell_pressure env cell_z st;
         num_faces = numFaces env
     in st\<lparr>cell_pressure_scalar := cell_pressure_scalar_initial,
           initial_voldiscr := [],
           face_pressure_scalar := replicate num_faces 0,
           start_face_flux := [],
           start_face_pressure := [],
           start_cell_press := [],
           well_bhp := replicate (numWells env) 0,
           start_perf_flux := [],
           face_flux := replicate num_faces 0,
           calls := []\<rparr>)"

definition solve ::
  "'ps env \<Rightarrow> config \<Rightarrow> compvec list \<Rightarrow> double list \<Rightarrow> double \<Rightarrow> 'ps state
   \<Rightarrow> (failure + ReturnCode) \<times> int \<times> 'ps state" where
  "solve env cfg cell_z src dt st =
     solve_loop env cfg cell_z src dt (initial_cell_pressure env cell_z st) 0 (solve_init env cell_z st)"

section \<open>Notions used to state the properties\<close>

text \<open>The number of iterations begun: each pass through the loop body evaluates the fluid
  properties once, at its top.\<close>

definition iterations_begun :: "'ps state \<Rightarrow> nat" where
  "iterations_begun st = length (filter (\<lambda>c. c = CallFluidProps) (calls st))"

definition linear_solves :: "'ps state \<Rightarrow> nat" where
  "linear_solves st = length (filter (\<lambda>c. c = CallLinearSolve) (calls st))"

text \<open>The state at the top of iteration \<open>k\<close> of the loop started with \<open>st\<close> at iteration 0,
  if the loop gets there.\<close>

fun state_at ::
  "'ps env \<Rightarrow> config \<Rightarrow> compvec list \<Rightarrow> double list \<Rightarrow> double \<Rightarrow> double list \<Rightarrow> nat
   \<Rightarrow> 'ps state \<Rightarrow> 'ps state option" where
  "state_at env cfg cell_z src dt cpsi 0 st = Some st"
| "state_at env cfg cell_z src dt cpsi (Suc k) st =
    (case state_at env cfg cell_z src dt cpsi k st of
       None \<Rightarrow> None
     | Some s \<Rightarrow>
        (if int k < max_num_iter cfg then
           (case solve_iteration env cfg cell_z src dt cpsi (int k) s of
              Continue s' \<Rightarrow> Some s'
            | Return code s' \<Rightarrow> None
            | Throw e s' \<Rightarrow> None)
         else None))"

text \<open>What the linear solver reports in an iteration whose state after the prologue is
  \<open>st\<close>, on the path the configuration selects.\<close>

definition linear_solver_report ::
  "'ps env \<Rightarrow> config \<Rightarrow> double list \<Rightarrow> double \<Rightarrow> double list \<Rightarrow> 'ps state \<Rightarrow> solver_results" where
  "linear_solver_report env cfg src dt cell_pressure_scalar_initial st =
    (if experimental_jacobian cfg then
       (let rj = computeResidualJacobian env cfg (initial_voldiscr st) (cell_pressure_scalar st)
                   cell_pressure_scalar_initial (well_bhp st) src dt [] st;
            s = ps_system (psolver (fst rj))
        in fst (linsolver_solve env (ls_n s) (ls_nnz s) (ls_ia s) (ls_ja s) (ls_sa s) (snd rj) (ls_x s)))
     else
       (let s = ps_system (assemble env src (bctypes cfg) (bcvalues cfg) dt
                        (totcompr (fp st)) (initial_voldiscr st) (cellA (fp st)) (faceA (fp st))
                        (perf_A st) (phasemobf (fp st)) (perf_mob st)
                        cell_pressure_scalar_initial (gravcapf (fp st))
                        (perf_gpot st) (surfaceDensities env) (psolver st))
        in fst (linsolver_solve env (ls_n s) (ls_nnz s) (ls_ia s) (ls_ja s) (ls_sa s) (ls_b s) (ls_x s))))"

text \<open>The state of an iteration right after the back-substitution, with the freshly
  computed pressures and fluxes, if the iteration gets there.\<close>

definition iteration_fresh ::
  "'ps env \<Rightarrow> config \<Rightarrow> compvec list \<Rightarrow> double list \<Rightarrow> double \<Rightarrow> double list \<Rightarrow> int
   \<Rightarrow> 'ps state \<Rightarrow> 'ps state option" where
  "iteration_fresh env cfg cell_z src dt cell_pressure_scalar_initial iter st =
    (case iteration_prologue env cfg cell_z dt iter st of
       Continue st1 \<Rightarrow>
         (case linearize env cfg src dt cell_pressure_scalar_initial (length cell_z) st1 of
            Continue st2 \<Rightarrow> Some (back_substitute env st2)
          | Return code st2 \<Rightarrow> None
          | Throw e st2 \<Rightarrow> None)
     | Return code st1 \<Rightarrow> None
     | Throw e st1 \<Rightarrow> None)"

text \<open>The loop with the relaxation block left out: the path on which no relaxation is
  applied at all.\<close>

definition solve_iteration_unrelaxed ::
  "'ps env \<Rightarrow> config \<Rightarrow> compvec list \<Rightarrow> double list \<Rightarrow> double \<Rightarrow> double list \<Rightarrow> int
   \<Rightarrow> 'ps state \<Rightarrow> 'ps state step" where
  "solve_iteration_unrelaxed env cfg cell_z src dt cell_pressure_scalar_initial iter st =
    (let num_cells = length cell_z;
         num_faces = numFaces env
     in case iteration_prologue env cfg cell_z dt iter st of
          Continue st \<Rightarrow>
            (case linearize env cfg src dt cell_pressure_scalar_initial num_cells st of
               Continue st \<Rightarrow>
                 (let st = back_substitute env st;
                      st = publish env cfg num_cells num_faces st
                  in convergence_test cfg st)
             | Return code st \<Rightarrow> Return code st
             | Throw e st \<Rightarrow> Throw e st)
        | Return code st \<Rightarrow> Return code st
        | Throw e st \<Rightarrow> Throw e st)"

function solve_loop_unrelaxed ::
  "'ps env \<Rightarrow> config \<Rightarrow> compvec list \<Rightarrow> double list \<Rightarrow> double \<Rightarrow> double list \<Rightarrow> int
   \<Rightarrow> 'ps state \<Rightarrow> (failure + ReturnCode) \<times> int \<times> 'ps state" where
  "solve_loop_unrelaxed env cfg cell_z src dt cell_pressure_scalar_initial iter st =
    (if iter < max_num_iter cfg then
       (case solve_iteration_unrelaxed env cfg cell_z src dt cell_pressure_scalar_initial iter st of
          Continue st' \<Rightarrow>
            solve_loop_unrelaxed env cfg cell_z src dt cell_pressure_scalar_initial (iter + 1) st'
        | Return code st' \<Rightarrow> (Inr code, iter, st')
        | Throw e st' \<Rightarrow> (Inl e, iter, st'))
     else (Inr FailedToConverge, iter, st))"
  by pat_completeness auto
termination
  by (relation "measure (\<lambda>(env, cfg, cell_z, src, dt, cpsi, iter, st). nat (max_num_iter cfg - iter))") auto

declare solve_loop.simps [simp del] solve_loop_unrelaxed.simps [simp del]

definition solve_unrelaxed ::
  "'ps env \<Rightarrow> config \<Rightarrow> compvec list \<Rightarrow> double list \<Rightarrow> double \<Rightarrow> 'ps state
   \<Rightarrow> (failure + ReturnCode) \<times> int \<times> 'ps state" where
  "solve_unrelaxed env cfg cell_z src dt st =
     solve_loop_unrelaxed env cfg cell_z src dt (initial_cell_pressure env cell_z st) 0
       (solve_init env cell_z st)"

text \<open>The infinity norm of a list of reals: the largest absolute value, \<open>0\<close> for the empty
  list.\<close>

definition infnorm :: "real list \<Rightarrow> real" where
  "infnorm xs = Max (insert 0 (abs ` set xs))"

text \<open>The relative flux change with the normalisation by the larger of the two iterations'
  maximum absolute flux, for finite fluxes \<open>ff\<close>, \<open>pf\<close> of the new iteration and \<open>sff\<close>,
  \<open>spf\<close> of the one before.\<close>

definition flux_change_over_both_iterations ::
  "real list \<Rightarrow> real list \<Rightarrow> real list \<Rightarrow> real list \<Rightarrow> double" where
  "flux_change_over_both_iterations ff pf sff spf =
     Fin (infnorm (map2 (-) ff sff @ map2 (-) pf spf))
       / Fin (max (infnorm (ff @ pf)) (infnorm (sff @ spf)))"

text \<open>The greatest element of a set of doubles.\<close>

definition greatest_of :: "double \<Rightarrow> double set \<Rightarrow> bool" where
  "greatest_of m S \<longleftrightarrow> m \<in> S \<and> (\<forall>d\<in>S. \<not> m < d)"

text \<open>The perforations of a well in their order, the total flux of a well and the
  flux-weighted average saturation of a phase in a well.  The sums are double sums, taken
  in the order of the perforations.\<close>

definition perfs_of_well :: "nat list \<Rightarrow> nat \<Rightarrow> nat \<Rightarrow> nat list" where
  "perfs_of_well pw num_perf well = filter (\<lambda>perf. pw ! perf = well) [0..<num_perf]"

definition total_well_flux :: "nat list \<Rightarrow> double list \<Rightarrow> nat \<Rightarrow> double" where
  "total_well_flux pw fluxes well =
     fold (\<lambda>perf s. s + fluxes ! perf) (perfs_of_well pw (length fluxes) well) 0"

definition flux_weighted_saturation ::
  "nat list \<Rightarrow> phasevec list \<Rightarrow> double list \<Rightarrow> nat \<Rightarrow> nat \<Rightarrow> double" where
  "flux_weighted_saturation pw psat fluxes well phase =
     fold (\<lambda>perf s. s + psat ! perf ! phase * fluxes ! perf) (perfs_of_well pw (length fluxes) well) 0
       * (1 / total_well_flux pw fluxes well)"

section \<open>A small configuration for concrete runs\<close>

text \<open>One cell, one face, one phase and no wells.  The assembler counts its calls in the
  opaque part of the pressure solver and the back-substitution returns that count as the
  cell pressure, the face pressure and the face flux, so consecutive iterations differ.
  The linear solver copies the right-hand side; the flag says whether it reports
  convergence.\<close>

definition demo_fluid :: fluid_data where
  "demo_fluid = \<lparr>totcompr = [Fin 0], voldiscr = [Fin 0], relvoldiscr = [Fin 0], cellA = [Fin 1],
     faceA = [Fin 1], phasemobf = [Fin 1], phasemobf_deriv = [Fin 0], gravcapf = [Fin 0],
     totphasevol_density = [Fin 1], expjacterm = [Fin 0]\<rparr>"

definition demo_system :: linear_system where
  "demo_system = \<lparr>ls_n = 1, ls_nnz = 1, ls_ia = [0, 1], ls_ja = [0], ls_sa = [Fin 1],
     ls_b = [Fin 1], ls_x = [Fin 0]\<rparr>"

definition demo_env :: "bool \<Rightarrow> nat env" where
  "demo_env ok = \<lparr>numPhases = 1, numComponents = 1, Liquid = 0,
     computeState = (\<lambda>p z. \<lparr>saturation = p, mobility = p, phase_to_comp = z\<rparr>),
     phaseDensities = (\<lambda>A. [Fin 1]),
     surfaceDensities = [Fin 1],
     numCells = 1, numFaces = 1,
     cellCentroid = (\<lambda>c. [Fin 0, Fin 0, Fin 0]),
     cellVolume = (\<lambda>c. Fin 1),
     porosity = (\<lambda>c. Fin 1),
     numWells = 0,
     wellIsInjector = (\<lambda>w. False),
     numPerforations = (\<lambda>w. 0),
     wellCell = (\<lambda>w p. 0),
     injectionMixture = (\<lambda>c. [Fin 1]),
     referenceDepth = (\<lambda>w. Fin 0),
     fp_compute = (\<lambda>f g pp ppf cz mix dt. demo_fluid),
     assemble = (\<lambda>src bt bv dt tc vd ca fa pa pm pfm cp gc gp sd ps.
                   \<lparr>ps_system = demo_system, ps_rest = Suc (ps_rest ps)\<rparr>),
     computePressuresAndFluxes = (\<lambda>ps. ([Fin (real (ps_rest ps))], [Fin (real (ps_rest ps))],
                   [Fin (real (ps_rest ps))], [], [])),
     linsolver_solve = (\<lambda>n nnz ia ja sa rhs x.
                   (\<lparr>converged = ok, iterations = 1, reduction = Fin 0\<rparr>, rhs))\<rparr>"

definition demo_cfg :: config where
  "demo_cfg = \<lparr>inflow_mixture = [Fin 1], flux_rel_tol = Fin (1 / 131072),
     press_rel_tol = Fin (1 / 131072), max_num_iter = 2, max_relative_voldiscr = Fin (1 / 8),
     relax_time_voldiscr = Fin 0, relax_weight_pressure_iteration = Fin 1,
     experimental_jacobian = False, output_residual = False,
     gravity = [Fin 0, Fin 0, Fin (157 / 16)],
     bctypes = [FBC_UNSET], bcvalues = [Fin 0], perf_wells = [], perf_cells = []\<rparr>"

definition demo_state :: "nat state" where
  "demo_state = \<lparr>cell_pressure = [[Fin 0]], face_pressure = [[Fin 0]], face_flux = [],
     well_perf_pressures = [], well_perf_fluxes = [], fp = demo_fluid,
     psolver = \<lparr>ps_system = demo_system, ps_rest = 0\<rparr>,
     perf_pressure = [], perf_A = [], perf_mob = [], perf_sat = [], perf_gpot = [],
     cell_pressure_scalar = [], initial_voldiscr = [], face_pressure_scalar = [],
     start_face_flux = [], start_face_pressure = [], start_cell_press = [], well_bhp = [],
     start_perf_flux = [], calls = []\<rparr>"

text \<open>Two injector wells with one perforation each, in the cells 0 and 1.  The fluid state
  returns the pressure it is given as saturation and as mobility, so the pressure used for
  a perforation can be read off the result.\<close>

definition two_well_env :: "nat env" where
  "two_well_env = (demo_env True)\<lparr>numCells := 2, numWells := 2,
     wellIsInjector := (\<lambda>w. True), numPerforations := (\<lambda>w. 1), wellCell := (\<lambda>w p. w)\<rparr>"

definition two_well_state :: "nat state" where
  "two_well_state = demo_state\<lparr>cell_pressure := [[Fin 1], [Fin 1]],
     perf_pressure := [Fin 100, Fin 200], perf_A := [Fin 0, Fin 0], perf_mob := [Fin 0, Fin 0],
     perf_sat := [[Fin 0], [Fin 0]]\<rparr>"

section \<open>Properties of the rounding\<close>

text \<open>
  Rounding fixes the numbers with a significand of at most 53 bits and an exponent in
  range, takes what is below half of the smallest subnormal number to zero and what is
  \<open>2 ^ 1024\<close> or more in magnitude to an infinity, and breaks ties to even.
\<close>

lemma rnd_not_NaN: "rnd x \<noteq> NaN"
  by (simp add: rnd_def Let_def signed_inf_def)

lemma rnd_zero: "rnd 0 = Fin 0"
  by (simp add: rnd_def)

lemma round_half_even_of_int: "round_half_even (of_int n) = n"
  by (simp add: round_half_even_def)

lemma rnd_dyadic:
  assumes "n \<noteq> 0" and "\<bar>n\<bar> < 2 ^ 53" and "- 1074 \<le> k"
    and "\<bar>of_int n * 2 powr of_int k\<bar> < (2::real) ^ 1024"
  shows "rnd (of_int n * 2 powr of_int k) = Fin (of_int n * 2 powr of_int k)"
proof -
  let ?x = "of_int n * 2 powr of_int k :: real"
  have x0: "?x \<noteq> 0" using assms(1) by simp
  have absn: "0 < \<bar>real_of_int n\<bar>" using assms(1) by simp
  have "\<bar>?x\<bar> = \<bar>real_of_int n\<bar> * 2 powr of_int k"
    by (simp add: abs_mult)
  then have lg: "log 2 \<bar>?x\<bar> = log 2 \<bar>real_of_int n\<bar> + of_int k"
    using absn by (simp add: log_mult)
  have "\<bar>real_of_int n\<bar> < 2 ^ 53"
    using assms(2) by (metis of_int_abs of_int_less_numeral_power_cancel_iff)
  then have "log 2 \<bar>real_of_int n\<bar> < log 2 (2 ^ 53)"
    using absn by (subst log_less_cancel_iff) simp_all
  moreover have "log 2 ((2::real) ^ 53) = 53"
    using log_nat_power [of "2::real" 2 53] by (simp only: log_eq_one of_nat_numeral)
  ultimately have "log 2 \<bar>real_of_int n\<bar> < 53"
    by (simp only:)
  then have "\<lfloor>log 2 \<bar>?x\<bar>\<rfloor> \<le> 52 + k"
    unfolding lg by linarith
  then have e: "ulp_exponent ?x \<le> k"
    using assms(3) by (simp add: ulp_exponent_def)
  define e where "e = ulp_exponent ?x"
  define j where "j = nat (k - e)"
  have k: "k = e + int j"
    using e by (simp add: j_def e_def)
  have pk: "(2::real) powr of_int k = 2 powr of_int e * 2 ^ j"
    by (subst k) (simp add: powr_add powr_realpow)
  have x: "?x = of_int (n * 2 ^ j) * 2 powr of_int e"
    by (simp only: pk) simp
  have pos: "(2::real) powr of_int e \<noteq> 0" by simp
  have q: "?x / 2 powr of_int e = of_int (n * 2 ^ j)"
    by (subst x) (simp only: nonzero_mult_div_cancel_right [OF pos])
  have y: "of_int (round_half_even (?x / 2 powr of_int e)) * 2 powr of_int e = ?x"
    by (simp only: q round_half_even_of_int x [symmetric])
  have "rnd ?x = (if 2 ^ 1024 \<le> \<bar>?x\<bar> then signed_inf ?x else Fin ?x)"
    unfolding rnd_def Let_def e_def [symmetric] y using x0 by (simp only: if_False)
  then show ?thesis
    using assms(4) by simp
qed

lemma rnd_int_over_pow2:
  assumes "\<bar>n\<bar> < 2 ^ 53" and "j \<le> 1074"
  shows "rnd (of_int n / 2 ^ j) = Fin (of_int n / 2 ^ j)"
proof (cases "n = 0")
  case True
  then show ?thesis by (simp add: rnd_zero)
next
  case False
  have p: "(2::real) powr of_int (- int j) = 1 / 2 ^ j"
    by (simp add: powr_minus powr_realpow field_simps)
  have "\<bar>real_of_int n\<bar> < 2 ^ 53"
    using assms(1) by (metis of_int_abs of_int_less_numeral_power_cancel_iff)
  moreover have "\<bar>real_of_int n\<bar> / 2 ^ j \<le> \<bar>real_of_int n\<bar> / 1"
    by (rule divide_left_mono) simp_all
  ultimately have "\<bar>real_of_int n\<bar> / 2 ^ j < 2 ^ 53"
    by (simp only: div_by_1 le_less_trans)
  moreover have "(2::real) ^ 53 < 2 ^ 1024"
    by (rule power_strict_increasing) simp_all
  moreover have "\<bar>of_int n * (2::real) powr of_int (- int j)\<bar> = \<bar>real_of_int n\<bar> / 2 ^ j"
    unfolding p by (simp add: abs_mult)
  ultimately have b: "\<bar>of_int n * (2::real) powr of_int (- int j)\<bar> < 2 ^ 1024"
    by (simp only: less_trans)
  have eq: "of_int n * (2::real) powr of_int (- int j) = of_int n / 2 ^ j"
    unfolding p by simp
  have "- 1074 \<le> - int j" using assms(2) by simp
  from rnd_dyadic [OF False assms(1) this b] show ?thesis
    unfolding eq .
qed

lemma rnd_numeral [simp]:
  "(numeral w :: int) < 9007199254740992 \<Longrightarrow> rnd (numeral w) = Fin (numeral w)"
  using rnd_int_over_pow2 [of "numeral w" 0] by simp

lemma rnd_neg_numeral [simp]:
  "(numeral w :: int) < 9007199254740992 \<Longrightarrow> rnd (- numeral w) = Fin (- numeral w)"
  using rnd_int_over_pow2 [of "- numeral w" 0] by simp

lemma rnd_one [simp]: "rnd 1 = Fin 1"
  using rnd_int_over_pow2 [of 1 0] by simp

lemma rnd_neg_one [simp]: "rnd (- 1) = Fin (- 1)"
  using rnd_int_over_pow2 [of "- 1" 0] by simp

lemma rnd_half [simp]: "rnd (1 / 2) = Fin (1 / 2)"
  using rnd_int_over_pow2 [of 1 1] by simp

lemma rnd_numeral_half [simp]:
  "(numeral w :: int) < 9007199254740992 \<Longrightarrow> rnd (numeral w / 2) = Fin (numeral w / 2)"
  using rnd_int_over_pow2 [of "numeral w" 1] by simp

lemma rnd_numeral_quarter [simp]:
  "(numeral w :: int) < 9007199254740992 \<Longrightarrow> rnd (numeral w / 4) = Fin (numeral w / 4)"
  using rnd_int_over_pow2 [of "numeral w" 2] by simp

lemma rnd_underflow:
  assumes "\<bar>x\<bar> < 2 powr (- 1075)"
  shows "rnd x = Fin 0"
proof (cases "x = 0")
  case True
  then show ?thesis by (simp add: rnd_zero)
next
  case False
  then have pos: "0 < \<bar>x\<bar>" by simp
  have "log 2 \<bar>x\<bar> < log 2 (2 powr (- 1075))"
    using pos assms by (subst log_less_cancel_iff) simp_all
  then have "log 2 \<bar>x\<bar> < - 1075" by simp
  then have "\<lfloor>log 2 \<bar>x\<bar>\<rfloor> - 52 \<le> - 1074" by linarith
  then have e: "ulp_exponent x = - 1074"
    by (simp add: ulp_exponent_def)
  define r where "r = x / 2 powr (- 1074)"
  have "(2::real) powr (- 1075) = 2 powr (- 1074) * (1 / 2)"
    using powr_add [of "2::real" "- 1074" "- 1"] by (simp add: powr_minus)
  then have "\<bar>x\<bar> < 2 powr (- 1074) * (1 / 2)" using assms by simp
  then have "\<bar>x\<bar> / 2 powr (- 1074) < 1 / 2"
    by (simp add: field_simps)
  then have r: "\<bar>r\<bar> < 1 / 2" by (simp add: r_def)
  have "round_half_even r = 0"
  proof (cases "0 \<le> r")
    case True
    then have "\<lfloor>r\<rfloor> = 0" using r by (simp add: floor_eq_iff)
    then show ?thesis using r True by (simp add: round_half_even_def)
  next
    case False
    then have "\<lfloor>r\<rfloor> = - 1" using r by (simp add: floor_eq_iff)
    then show ?thesis using r False by (simp add: round_half_even_def)
  qed
  then show ?thesis
    using False by (simp add: rnd_def e r_def)
qed

lemma round_half_even_ge:
  assumes "of_int m \<le> r"
  shows "m \<le> round_half_even r"
proof -
  have "m \<le> \<lfloor>r\<rfloor>" using assms by (simp add: le_floor_iff)
  then show ?thesis by (simp add: round_half_even_def Let_def)
qed

lemma round_half_even_le:
  assumes "r \<le> of_int m"
  shows "round_half_even r \<le> m"
proof (cases "\<lfloor>r\<rfloor> = m")
  case True
  then have "r = of_int \<lfloor>r\<rfloor>" using assms by linarith
  then show ?thesis using True by (simp add: round_half_even_def)
next
  case False
  moreover have "\<lfloor>r\<rfloor> \<le> m" using assms by (simp add: floor_le_iff)
  ultimately have "\<lfloor>r\<rfloor> < m" by simp
  then show ?thesis by (simp add: round_half_even_def Let_def)
qed

lemma rnd_overflow:
  assumes "2 ^ 1024 \<le> \<bar>x\<bar>"
  shows "rnd x = signed_inf x"
proof -
  have x0: "x \<noteq> 0" and pos: "0 < \<bar>x\<bar>" using assms by auto
  define L where "L = \<lfloor>log 2 \<bar>x\<bar>\<rfloor>"
  have p1024: "(2::real) powr 1024 = 2 ^ 1024"
    using powr_realpow [of "2::real" 1024] by simp
  have l1024: "log 2 ((2::real) ^ 1024) = 1024"
    using log_nat_power [of "2::real" 2 1024] by (simp only: log_eq_one of_nat_numeral)
  have "log 2 ((2::real) ^ 1024) \<le> log 2 \<bar>x\<bar>"
    using pos assms by (subst log_le_cancel_iff) simp_all
  then have "1024 \<le> log 2 \<bar>x\<bar>" by (simp only: l1024)
  then have L: "1024 \<le> L" by (simp add: L_def le_floor_iff)
  then have e: "ulp_exponent x = L - 52"
    by (simp add: ulp_exponent_def L_def)
  have "of_int L \<le> log 2 \<bar>x\<bar>" by (simp add: L_def)
  then have "2 powr of_int L \<le> 2 powr log 2 \<bar>x\<bar>"
    by (subst powr_le_cancel_iff) simp_all
  then have xL: "2 powr of_int L \<le> \<bar>x\<bar>" using pos by simp
  define u where "u = (2::real) powr of_int (L - 52)"
  have u: "0 < u" by (simp add: u_def)
  have p52: "(2::real) powr 52 = of_int (2 ^ 52)"
    using powr_realpow [of "2::real" 52] by simp
  have split: "(2::real) powr of_int L = of_int (2 ^ 52) * u"
    unfolding u_def p52 [symmetric] using powr_add [of "2::real" 52 "of_int (L - 52)"] by simp
  define r where "r = x / u"
  have absr: "of_int (2 ^ 52) \<le> \<bar>r\<bar>"
    using xL u unfolding split r_def by (simp add: field_simps abs_divide del: of_int_power of_int_numeral)
  have big: "2 ^ 52 \<le> \<bar>round_half_even r\<bar>"
  proof (cases "0 \<le> r")
    case True
    then have "of_int (2 ^ 52) \<le> r" using absr by simp
    then have "2 ^ 52 \<le> round_half_even r" by (rule round_half_even_ge)
    then show ?thesis by simp
  next
    case False
    then have "r \<le> of_int (- (2 ^ 52))" using absr by simp
    then have "round_half_even r \<le> - (2 ^ 52)" by (rule round_half_even_le)
    then show ?thesis by simp
  qed
  have "of_int (2 ^ 52) \<le> \<bar>real_of_int (round_half_even r)\<bar>"
    using big by (metis of_int_abs of_int_le_iff)
  then have "of_int (2 ^ 52) * u \<le> \<bar>real_of_int (round_half_even r)\<bar> * u"
    using u by (simp del: of_int_power of_int_numeral)
  then have "2 powr of_int L \<le> \<bar>of_int (round_half_even r) * u\<bar>"
    using u by (simp only: split abs_mult abs_of_pos)
  moreover have "(2::real) powr 1024 \<le> 2 powr of_int L"
    using L by (subst powr_le_cancel_iff) simp_all
  ultimately have "2 ^ 1024 \<le> \<bar>of_int (round_half_even r) * u\<bar>"
    by (simp only: p1024 [symmetric])
  then show ?thesis
    using x0 by (simp only: rnd_def Let_def e r_def u_def if_True if_False)
qed

lemma rnd_tie_to_even: "rnd 9007199254740993 = Fin 9007199254740992"
proof -
  have p53: "(2::real) powr of_int 53 = 9007199254740992"
    using powr_realpow [of "2::real" 53] by simp
  have p54: "(2::real) powr of_int (53 + 1) = 18014398509481984"
    using powr_realpow [of "2::real" 54] by simp
  have "\<lfloor>log 2 (9007199254740993::real)\<rfloor> = 53"
    by (subst floor_log_eq_powr_iff) (simp_all only: p53 p54, simp_all)
  then have e: "ulp_exponent 9007199254740993 = 1"
    by (simp add: ulp_exponent_def)
  have f: "\<lfloor>9007199254740993 / 2 :: real\<rfloor> = 4503599627370496"
    by (simp add: floor_eq_iff)
  have "round_half_even (9007199254740993 / 2) = 4503599627370496"
    by (simp add: round_half_even_def f Let_def)
  then show ?thesis
    by (simp add: rnd_def e Let_def)
qed

lemma rnd_two_pow_53: "rnd 9007199254740992 = Fin 9007199254740992"
  using rnd_int_over_pow2 [of 4503599627370496 0] rnd_dyadic [of 1 53] by simp

lemma rnd_neg_two_pow_53: "rnd (- 9007199254740992) = Fin (- 9007199254740992)"
  using rnd_dyadic [of "- 1" 53] by simp

section \<open>Properties of the convergence metrics\<close>

lemma dmax_Fin: "dmax (Fin a) (Fin b) = Fin (max a b)"
  by (simp add: dmax_def max_def)

lemma fold_min_Fin:
  "fold (\<lambda>x s. if x < s then x else s) (map Fin ys) (Fin a) = Fin (fold min ys a)"
  by (induction ys arbitrary: a) (simp_all add: min_def)

lemma fold_max_Fin:
  "fold (\<lambda>x l. if l < x then x else l) (map Fin ys) (Fin a) = Fin (fold max ys a)"
  by (induction ys arbitrary: a) (simp_all add: max_def)

lemma min_element_Fin: "xs \<noteq> [] \<Longrightarrow> min_element (map Fin xs) = Fin (Min (set xs))"
  by (cases xs) (simp_all add: min_element_def fold_min_Fin Min.set_eq_fold del: set_simps)

lemma max_element_Fin: "xs \<noteq> [] \<Longrightarrow> max_element (map Fin xs) = Fin (Max (set xs))"
  by (cases xs) (simp_all add: max_element_def fold_max_Fin Max.set_eq_fold del: set_simps)

lemma abs_Min_Max:
  fixes S :: "real set"
  assumes "finite S" "S \<noteq> {}"
  shows "max \<bar>Min S\<bar> \<bar>Max S\<bar> = Max (abs ` S)"
proof -
  have le: "\<bar>x\<bar> \<le> max \<bar>Min S\<bar> \<bar>Max S\<bar>" if "x \<in> S" for x
  proof -
    have "Min S \<le> x" "x \<le> Max S" using assms that by simp_all
    then show ?thesis by (simp add: max_def abs_if split: if_splits)
  qed
  have mem: "max \<bar>Min S\<bar> \<bar>Max S\<bar> \<in> abs ` S"
    using Min_in [OF assms] Max_in [OF assms] by (auto simp: max_def)
  show ?thesis
    by (rule sym, rule Max_eqI) (use assms le mem in auto)
qed

lemma max_abs_elements:
  "xs \<noteq> [] \<Longrightarrow> dmax \<bar>min_element (map Fin xs)\<bar> \<bar>max_element (map Fin xs)\<bar> = Fin (infnorm xs)"
proof -
  assume ne: "xs \<noteq> []"
  have nonneg: "0 \<le> Max (abs ` set xs)"
  proof -
    obtain x where "x \<in> set xs" using ne by (cases xs) auto
    then have "\<bar>x\<bar> \<le> Max (abs ` set xs)" by simp
    then show ?thesis by linarith
  qed
  have "infnorm xs = Max (abs ` set xs)"
    unfolding infnorm_def using ne nonneg by (simp add: max_def)
  then show ?thesis
    using ne by (simp add: min_element_Fin max_element_Fin dmax_Fin abs_Min_Max)
qed

lemma infnorm_append: "infnorm (xs @ ys) = max (infnorm xs) (infnorm ys)"
proof -
  have "insert 0 (abs ` set (xs @ ys)) = insert 0 (abs ` set xs) \<union> insert 0 (abs ` set ys)"
    by auto
  moreover have "Max (insert 0 (abs ` set xs) \<union> insert 0 (abs ` set ys))
      = max (Max (insert 0 (abs ` set xs))) (Max (insert 0 (abs ` set ys)))"
    by (rule Max_Un) simp_all
  ultimately show ?thesis
    unfolding infnorm_def by simp
qed

lemma Max_insert_nonneg:
  fixes a :: real
  assumes "finite S" "0 \<le> a"
  shows "Max (insert a S) = max a (Max (insert 0 S))"
proof (cases "S = {}")
  case True
  then show ?thesis using assms by simp
next
  case False
  then show ?thesis using assms by (simp add: max_def)
qed

lemma infnorm_nonneg: "0 \<le> infnorm xs"
  unfolding infnorm_def by (simp add: Max_ge_iff)

lemma infnorm_zero_iff: "infnorm xs = 0 \<longleftrightarrow> (\<forall>x\<in>set xs. x = 0)"
proof
  assume z: "infnorm xs = 0"
  show "\<forall>x\<in>set xs. x = 0"
  proof
    fix x assume "x \<in> set xs"
    then have "\<bar>x\<bar> \<le> infnorm xs" unfolding infnorm_def by (simp add: Max_ge_iff) 
    with z show "x = 0" by simp
  qed
next
  assume "\<forall>x\<in>set xs. x = 0"
  then have "insert 0 (abs ` set xs) = {0}" by auto
  then show "infnorm xs = 0" unfolding infnorm_def by (simp only: Max_singleton)
qed

lemma dless_asym: "(a::double) < b \<Longrightarrow> \<not> b < a"
  by (cases a; cases b) simp_all

lemma dless_irrefl: "\<not> (a::double) < a"
  by (cases a) simp_all

lemma dless_neg_trans: "b \<noteq> NaN \<Longrightarrow> \<not> a < b \<Longrightarrow> \<not> b < c \<Longrightarrow> \<not> a < (c::double)"
  by (cases a; cases b; cases c) simp_all

lemma dmax_not_NaN: "a \<noteq> NaN \<Longrightarrow> b \<noteq> NaN \<Longrightarrow> dmax a b \<noteq> NaN"
  by (simp add: dmax_def)

lemma fold_dmax_greatest:
  "m0 \<noteq> NaN \<Longrightarrow> NaN \<notin> set ds \<Longrightarrow>
   greatest_of (fold (\<lambda>d m. dmax m d) ds m0) (insert m0 (set ds))"
proof (induction ds arbitrary: m0)
  case Nil
  then show ?case by (cases m0) (simp_all add: greatest_of_def)
next
  case (Cons d ds)
  let ?m = "dmax m0 d"
  let ?r = "fold (\<lambda>d m. dmax m d) ds ?m"
  have d: "d \<noteq> NaN" using Cons.prems(2) by auto
  have m: "?m \<noteq> NaN" using Cons.prems(1) d by (rule dmax_not_NaN)
  have ih: "greatest_of ?r (insert ?m (set ds))"
    using Cons.IH [OF m] Cons.prems by simp
  have ge: "\<not> ?r < ?m" using ih by (simp add: greatest_of_def)
  have "\<not> ?m < m0" "\<not> ?m < d"
    by (auto simp: dmax_def dless_irrefl dest: dless_asym)
  then have "\<not> ?r < m0" "\<not> ?r < d"
    using dless_neg_trans [OF m ge] by blast+
  moreover have "?r \<in> insert m0 (insert d (set ds))"
    using ih by (auto simp: greatest_of_def dmax_def split: if_splits)
  ultimately show ?case
    using ih by (auto simp: greatest_of_def)
qed

lemma abs_diff_not_NaN: "\<bar>Fin a - Fin b\<bar> \<noteq> NaN"
  by (cases "rnd (a - b)") (simp_all add: minus_double_def rnd_not_NaN)

lemma index_diffs:
  "length xs \<le> length ys \<Longrightarrow>
   map (\<lambda>i. \<bar>map Fin xs ! i - map Fin ys ! i\<bar>) [0..<length xs] = map2 (\<lambda>a b. \<bar>Fin a - Fin b\<bar>) xs ys"
  by (rule nth_equalityI) simp_all

lemma change_loop:
  assumes "length xs \<le> length ys"
  shows "fold (\<lambda>i m. dmax m \<bar>map Fin xs ! i - map Fin ys ! i\<bar>) [0..<length xs] m0
       = fold (\<lambda>d m. dmax m d) (map2 (\<lambda>a b. \<bar>Fin a - Fin b\<bar>) xs ys) m0"
proof -
  have "fold (\<lambda>d m. dmax m d) (map (\<lambda>i. \<bar>map Fin xs ! i - map Fin ys ! i\<bar>) [0..<length xs]) m0
      = fold (\<lambda>i m. dmax m \<bar>map Fin xs ! i - map Fin ys ! i\<bar>) [0..<length xs] m0"
    by (simp add: fold_map comp_def)
  then show ?thesis
    by (simp only: index_diffs [OF assms])
qed

lemma diffs_not_NaN: "NaN \<notin> set (map2 (\<lambda>a b. \<bar>Fin a - Fin b\<bar>) xs ys)"
proof
  assume "NaN \<in> set (map2 (\<lambda>a b. \<bar>Fin a - Fin b\<bar>) xs ys)"
  then obtain a b where "NaN = \<bar>Fin a - Fin b\<bar>" by auto
  then show False using abs_diff_not_NaN [of a b] by simp
qed

lemma metrics_finite:
  assumes "ff \<noteq> []" "cp \<noteq> []"
    and "length ff \<le> length sff" "length pf \<le> length spf" "length cp \<le> length scp"
  shows "\<exists>N P. computeFluxPressChanges (map Fin ff) (map Fin pf) (map Fin cp)
                  (map Fin sff) (map Fin spf) (map Fin scp)
                = (N / Fin (infnorm (ff @ pf)), P / Fin (infnorm cp))
            \<and> greatest_of N (insert 0 (set (map2 (\<lambda>a b. \<bar>Fin a - Fin b\<bar>) ff sff)
                                        \<union> set (map2 (\<lambda>a b. \<bar>Fin a - Fin b\<bar>) pf spf)))
            \<and> greatest_of P (insert 0 (set (map2 (\<lambda>a b. \<bar>Fin a - Fin b\<bar>) cp scp)))"
proof -
  let ?F = "map2 (\<lambda>a b. \<bar>Fin a - Fin b\<bar>) ff sff"
  let ?Q = "map2 (\<lambda>a b. \<bar>Fin a - Fin b\<bar>) pf spf"
  let ?C = "map2 (\<lambda>a b. \<bar>Fin a - Fin b\<bar>) cp scp"
  let ?N = "fold (\<lambda>d m. dmax m d) (?F @ ?Q) 0"
  let ?P = "fold (\<lambda>d m. dmax m d) ?C 0"
  have z: "(0::double) \<noteq> NaN" by (simp add: zero_double_def)
  have face: "fold (\<lambda>i m. dmax m \<bar>map Fin ff ! i - map Fin sff ! i\<bar>) [0..<length ff] 0
      = fold (\<lambda>d m. dmax m d) ?F 0"
    by (rule change_loop [OF assms(3)])
  have perf: "fold (\<lambda>i m. dmax m \<bar>map Fin pf ! i - map Fin spf ! i\<bar>) [0..<length pf]
        (fold (\<lambda>d m. dmax m d) ?F 0) = ?N"
    by (simp add: change_loop [OF assms(4)])
  have cell: "fold (\<lambda>i m. dmax m \<bar>map Fin cp ! i - map Fin scp ! i\<bar>) [0..<length cp] 0 = ?P"
    by (rule change_loop [OF assms(5)])
  have maxflux: "dmax (dmax \<bar>min_element (map Fin ff)\<bar> \<bar>max_element (map Fin ff)\<bar>)
        (if length pf = 0 then 0
         else dmax \<bar>min_element (map Fin pf)\<bar> \<bar>max_element (map Fin pf)\<bar>)
      = Fin (infnorm (ff @ pf))"
    using assms(1) infnorm_nonneg [of ff]
    by (cases "pf = []")
       (simp_all add: max_abs_elements infnorm_append dmax_Fin zero_double_def infnorm_def [of "[]"])
  have maxpress: "dmax \<bar>min_element (map Fin cp)\<bar> \<bar>max_element (map Fin cp)\<bar> = Fin (infnorm cp)"
    using assms(2) by (rule max_abs_elements)
  have res: "computeFluxPressChanges (map Fin ff) (map Fin pf) (map Fin cp)
                  (map Fin sff) (map Fin spf) (map Fin scp)
                = (?N / Fin (infnorm (ff @ pf)), ?P / Fin (infnorm cp))"
    by (simp only: computeFluxPressChanges_def Let_def length_map face perf cell maxflux maxpress)
  have gN: "greatest_of ?N (insert 0 (set ?F \<union> set ?Q))"
    using fold_dmax_greatest [OF z, of "?F @ ?Q"] diffs_not_NaN [of ff sff] diffs_not_NaN [of pf spf]
    by simp
  have gP: "greatest_of ?P (insert 0 (set ?C))"
    using fold_dmax_greatest [OF z, of ?C] diffs_not_NaN [of cp scp] by simp
  show ?thesis
    using res gN gP by blast
qed

text \<open>
  Claim C4, as the code has it.  For finite fluxes and pressures (at least one face and
  one cell, the start vectors at least as long as the current ones), the relative flux
  change is the greatest absolute flux change, each difference and the quotient computed
  in double arithmetic and the greatest taken jointly over the faces and the perforations
  (zero when no change is greater), divided by the largest absolute flux of the new
  iteration alone (faces and perforations jointly); the relative pressure change is the
  greatest absolute cell pressure change divided by the largest absolute cell pressure of
  the new iteration.
\<close>

theorem relative_changes_of_finite_state:
  assumes "ff \<noteq> []" and "cp \<noteq> []"
    and "length ff \<le> length sff" and "length pf \<le> length spf" and "length cp \<le> length scp"
  shows "\<exists>N P. computeFluxPressChanges (map Fin ff) (map Fin pf) (map Fin cp)
                  (map Fin sff) (map Fin spf) (map Fin scp)
                = (N / Fin (infnorm (ff @ pf)), P / Fin (infnorm cp))
            \<and> greatest_of N (insert 0 (set (map2 (\<lambda>a b. \<bar>Fin a - Fin b\<bar>) ff sff)
                                        \<union> set (map2 (\<lambda>a b. \<bar>Fin a - Fin b\<bar>) pf spf)))
            \<and> greatest_of P (insert 0 (set (map2 (\<lambda>a b. \<bar>Fin a - Fin b\<bar>) cp scp)))"
  using assms by (rule metrics_finite)

theorem relative_changes_of_finite_state_witness:
  "computeFluxPressChanges [Fin 1] [] [Fin 1] [Fin 2] [] [Fin 1] = (Fin 1, Fin 0)"
proof -
  from relative_changes_of_finite_state [of "[1]" "[1]" "[2]" "[]" "[]" "[1]"]
  obtain N P where r: "computeFluxPressChanges [Fin 1] [] [Fin 1] [Fin 2] [] [Fin 1]
        = (N / Fin (infnorm [1]), P / Fin (infnorm [1]))"
    and n: "greatest_of N (insert 0 (set [\<bar>Fin 1 - Fin 2\<bar>]))"
    and p: "greatest_of P (insert 0 (set [\<bar>Fin 1 - Fin 1\<bar>]))"
    by auto
  have "N = Fin 1"
    using n by (auto simp: greatest_of_def minus_double_def zero_double_def)
  moreover have "P = Fin 0"
    using p by (auto simp: greatest_of_def minus_double_def zero_double_def rnd_zero)
  ultimately show ?thesis
    using r by (simp add: infnorm_def rnd_zero)
qed

text \<open>
  The flux change is not normalised by the larger of the two iterations' maxima: with
  one face whose flux goes from 2 to 1 the code gives \<open>1/1\<close>, not \<open>1/2\<close>.
\<close>

theorem flux_change_not_over_both_iterations:
  "fst (computeFluxPressChanges [Fin 1] [] [Fin 1] [Fin 2] [] [Fin 1])
     \<noteq> flux_change_over_both_iterations [1] [] [2] []"
  by (simp add: computeFluxPressChanges_def min_element_def max_element_def dmax_def
      minus_double_def zero_double_def flux_change_over_both_iterations_def infnorm_def rnd_zero)

text \<open>
  A flux difference may overflow: with one face whose flux goes from \<open>- 2 ^ 1023\<close> to
  \<open>2 ^ 1023\<close> the relative flux change is infinite.
\<close>

lemma overflowing_flux_change:
  assumes "0 < a" and "rnd (a + a) = PInf"
  shows "computeFluxPressChanges [Fin a] [] [Fin 1] [Fin (- a)] [] [Fin 1] = (PInf, Fin 0)"
  using assms
  by (simp add: computeFluxPressChanges_def min_element_def max_element_def dmax_def
      minus_double_def zero_double_def rnd_zero signed_inf_def Let_def)

theorem flux_change_overflows:
  "computeFluxPressChanges [Fin (2 ^ 1023)] [] [Fin 1] [Fin (- (2 ^ 1023))] [] [Fin 1] = (PInf, Fin 0)"
proof -
  have a: "(0::real) < 2 ^ 1023" by simp
  have s: "(2::real) ^ 1023 + 2 ^ 1023 = 2 ^ 1024"
    using power_Suc [of "2::real" 1023] by (simp only: mult_2 [symmetric]) simp
  have "rnd (2 ^ 1024) = signed_inf (2 ^ 1024)"
    by (intro rnd_overflow) simp
  then have "rnd (2 ^ 1024) = PInf"
    by (simp only: signed_inf_def zero_less_power zero_less_numeral if_True)
  then have b: "rnd (2 ^ 1023 + 2 ^ 1023) = PInf"
    by (simp only: s)
  show ?thesis
    by (rule overflowing_flux_change [OF a b])
qed




text \<open>
  Zero relative changes do not make the iterations identical either: a change whose
  quotient by the largest magnitude is below half of the smallest subnormal number is
  rounded to zero.  A flux that goes from 0 to \<open>1 / 2 ^ 1074\<close> beside a flux of 4 is not seen.
\<close>

lemma underflow_changes:
  assumes "0 < t" and "t < 4" and "rnd t = Fin t" and "t / 4 < 2 powr (- 1075)"
  shows "computeFluxPressChanges [Fin 4, Fin t] [] [Fin 4] [Fin 4, Fin 0] [] [Fin 4] = (0, 0)"
proof -
  have "rnd (t / 4) = Fin 0"
    by (rule rnd_underflow) (use assms in simp)
  then show ?thesis
    using assms(1,2,3)
    by (simp add: computeFluxPressChanges_def min_element_def max_element_def dmax_def
      minus_double_def zero_double_def rnd_zero numeral_2_eq_2 Let_def)
qed

theorem tiny_flux_change_not_seen:
  "computeFluxPressChanges [Fin 4, Fin (1 / 2 ^ 1074)] [] [Fin 4] [Fin 4, Fin 0] [] [Fin 4] = (0, 0)
   \<and> [Fin 4, Fin (1 / 2 ^ 1074)] \<noteq> [Fin 4, Fin 0]"
proof -
  have p: "(2::real) powr (- 1075) = 1 / 2 ^ 1075"
    using powr_realpow [of "2::real" 1075] by (simp add: powr_minus field_simps)
  have a: "(0::real) < 1 / 2 ^ 1074" by simp
  have "(1::real) / 2 ^ 1074 \<le> 1 / 2 ^ 0"
    by (intro divide_left_mono power_increasing) simp_all
  then have b: "(1::real) / 2 ^ 1074 < 4" by simp
  have c: "rnd (1 / 2 ^ 1074) = Fin (1 / 2 ^ 1074)"
    using rnd_int_over_pow2 [of 1 1074] by simp
  have "(2::real) ^ 1075 < 2 ^ 1076"
    by (rule power_strict_increasing) simp_all
  then have "(1::real) / 2 ^ 1076 < 1 / 2 ^ 1075"
    by (intro divide_strict_left_mono) simp_all
  moreover have "(1::real) / 2 ^ 1074 / 4 = 1 / 2 ^ 1076"
    by (simp add: power_add [of "2::real" 1074 2, simplified])
  ultimately have d: "(1::real) / 2 ^ 1074 / 4 < 2 powr (- 1075)"
    by (simp only: p)
  have "Fin (1 / 2 ^ 1074) \<noteq> Fin 0" using a by simp
  then show ?thesis
    using underflow_changes [OF a b c d] by simp
qed

section \<open>Properties of the well perforation pressures\<close>

lemma perfs_of_well_Suc:
  "perfs_of_well pw (Suc n) w = perfs_of_well pw n w @ (if pw ! n = w then [n] else [])"
  by (simp add: perfs_of_well_def)

lemma accumulate_loop:
  assumes "\<forall>p<n. pw ! p < nw"
  shows "fold (well_accumulate np pw psat fluxes) [0..<n] (replicate nw 0, replicate nw (pv_const np 0))
     = (map (\<lambda>w. fold (\<lambda>p s. s + fluxes ! p) (perfs_of_well pw n w) 0) [0..<nw],
        map (\<lambda>w. map (\<lambda>i. fold (\<lambda>p s. s + psat ! p ! i * fluxes ! p) (perfs_of_well pw n w) 0)
                    [0..<np]) [0..<nw])"
    (is "fold ?F [0..<n] ?init = (?A n, ?B n)")
  using assms
proof (induction n)
  case 0
  show ?case
    by (simp add: perfs_of_well_def pv_const_def map_replicate_const)
next
  case (Suc n)
  then have w0: "pw ! n < nw" by simp
  have ih: "fold ?F [0..<n] ?init = (?A n, ?B n)"
    using Suc by simp
  have "fold ?F [0..<Suc n] ?init = ?F n (fold ?F [0..<n] ?init)"
    by simp
  also have "\<dots> = ?F n (?A n, ?B n)"
    by (simp only: ih)
  also have "\<dots> = (?A (Suc n), ?B (Suc n))"
  proof -
    have "(?A n)[pw ! n := ?A n ! (pw ! n) + fluxes ! n] = ?A (Suc n)"
      by (rule nth_equalityI) (use w0 in \<open>auto simp: nth_list_update perfs_of_well_Suc\<close>)
    moreover have "(?B n)[pw ! n := pv_add np (?B n ! (pw ! n)) (pv_scale np (psat ! n) (fluxes ! n))]
        = ?B (Suc n)"
      by (rule nth_equalityI)
         (use w0 in \<open>auto simp: nth_list_update perfs_of_well_Suc pv_add_def pv_scale_def\<close>)
    ultimately show ?thesis
      by (simp add: well_accumulate_def Let_def)
  qed
  finally show ?case .
qed

lemma scale_loop:
  "k \<le> length ws \<Longrightarrow>
   fold (\<lambda>well ws. ws[well := g well (ws ! well)]) [0..<k] ws
     = map (\<lambda>w. if w < k then g w (ws ! w) else ws ! w) [0..<length ws]"
    (is "_ \<Longrightarrow> fold ?F [0..<k] ws = ?R k")
proof (induction k)
  case 0
  show ?case by (simp add: map_nth)
next
  case (Suc k)
  have "fold ?F [0..<Suc k] ws = ?F k (fold ?F [0..<k] ws)"
    by simp
  also have "\<dots> = ?F k (?R k)"
    using Suc by simp
  also have "\<dots> = ?R (Suc k)"
    by (rule nth_equalityI) (use Suc.prems in \<open>auto simp: nth_list_update less_Suc_eq\<close>)
  finally show ?case .
qed

lemma average_saturation_value:
  assumes "\<forall>p<length fluxes. pw ! p < nw" "well < nw" "phase < np"
  shows "well_average_saturations np nw pw psat fluxes ! well ! phase
           = flux_weighted_saturation pw psat fluxes well phase"
proof -
  let ?F = "map (\<lambda>w. fold (\<lambda>p s. s + fluxes ! p) (perfs_of_well pw (length fluxes) w) 0) [0..<nw]"
  let ?S = "map (\<lambda>w. map (\<lambda>i. fold (\<lambda>p s. s + psat ! p ! i * fluxes ! p)
                       (perfs_of_well pw (length fluxes) w) 0) [0..<np]) [0..<nw]"
  have "well_average_saturations np nw pw psat fluxes
      = fold (\<lambda>well ws. ws[well := pv_scale np (ws ! well) (1 / ?F ! well)]) [0..<nw] ?S"
    unfolding well_average_saturations_def Let_def
    by (simp only: accumulate_loop [OF assms(1)] fst_conv snd_conv)
  also have "\<dots> = map (\<lambda>w. if w < nw then pv_scale np (?S ! w) (1 / ?F ! w) else ?S ! w) [0..<length ?S]"
    by (rule scale_loop) simp
  finally show ?thesis
    using assms(2,3)
    by (simp add: flux_weighted_saturation_def total_well_flux_def pv_scale_def)
qed

lemma phase_loop:
  "perf < length wpp \<Longrightarrow>
   fold (\<lambda>phase wpp. wpp[perf := wpp ! perf + g phase]) [0..<k] wpp
     = wpp[perf := fold (\<lambda>phase q. q + g phase) [0..<k] (wpp ! perf)]"
  by (induction k) simp_all

lemma perf_loop:
  "n \<le> length wpp \<Longrightarrow>
   fold (\<lambda>perf wpp.
            (let wpp = wpp[perf := b perf]; sat = s perf
             in fold (\<lambda>phase wpp. wpp[perf := wpp ! perf + g sat perf phase]) [0..<np] wpp))
        [0..<n] wpp
     = map (\<lambda>p. if p < n then fold (\<lambda>phase q. q + g (s p) p phase) [0..<np] (b p) else wpp ! p)
         [0..<length wpp]"
    (is "_ \<Longrightarrow> fold ?F [0..<n] wpp = ?R n")
proof (induction n)
  case 0
  show ?case by (simp add: map_nth)
next
  case (Suc n)
  have step: "?F n xs = xs[n := fold (\<lambda>phase q. q + g (s n) n phase) [0..<np] (b n)]"
    if "n < length xs" for xs
    using that by (simp add: Let_def phase_loop)
  have "fold ?F [0..<Suc n] wpp = ?F n (fold ?F [0..<n] wpp)"
    by simp
  also have "\<dots> = ?F n (?R n)"
    using Suc by simp
  also have "\<dots> = (?R n)[n := fold (\<lambda>phase q. q + g (s n) n phase) [0..<np] (b n)]"
    by (rule step) (use Suc.prems in simp)
  also have "\<dots> = ?R (Suc n)"
    by (rule nth_equalityI) (use Suc.prems in \<open>auto simp: nth_list_update less_Suc_eq\<close>)
  finally show ?case .
qed

lemma perf_pressure_value:
  assumes "\<forall>p<length fluxes. pw ! p < nw" "perf < length fluxes" "length fluxes \<le> length wpp"
  shows "computeWellPerfPressures np nw pw psat fluxes bhp gpot wpp ! perf
     = fold (\<lambda>phase q. q + flux_weighted_saturation pw psat fluxes (pw ! perf) phase
                             * gpot ! (np * perf + phase))
         [0..<np] (bhp ! (pw ! perf))"
proof -
  have "computeWellPerfPressures np nw pw psat fluxes bhp gpot wpp ! perf
     = fold (\<lambda>phase q. q + well_average_saturations np nw pw psat fluxes ! (pw ! perf) ! phase
                             * gpot ! (np * perf + phase))
         [0..<np] (bhp ! (pw ! perf))"
    unfolding computeWellPerfPressures_def Let_def
    using assms(2,3)
    by (subst perf_loop [where b = "\<lambda>p. bhp ! (pw ! p)"
              and s = "\<lambda>p. well_average_saturations np nw pw psat fluxes ! (pw ! p)"
              and g = "\<lambda>sat p phase. sat ! phase * gpot ! (np * p + phase)", unfolded Let_def])
       simp_all
  also have "\<dots> = fold (\<lambda>phase q. q + flux_weighted_saturation pw psat fluxes (pw ! perf) phase
                             * gpot ! (np * perf + phase))
         [0..<np] (bhp ! (pw ! perf))"
    using assms(1,2)
    by (intro fold_cong refl) (simp add: average_saturation_value)
  finally show ?thesis .
qed

lemma isfinite_times_zero: "isfinite a \<Longrightarrow> a * 0 = 0"
  by (cases a) (simp_all add: zero_double_def rnd_zero)

lemma representable_plus_zero: "representable a \<Longrightarrow> a + 0 = a"
  by (cases a) (simp_all add: zero_double_def)

lemma fold_plus_zero:
  "representable b \<Longrightarrow> (\<And>x. x \<in> set xs \<Longrightarrow> t x = 0) \<Longrightarrow> fold (\<lambda>x q. q + t x) xs b = b"
  by (induction xs) (simp_all add: representable_plus_zero)







text \<open>
  Claim C8, as the code has it.  Where every perforation belongs to a well, the pressure
  computed for a perforation is the bottomhole pressure of its well, to which the products
  of the well's flux-weighted average saturation and the perforation's gravity potential
  are added phase by phase, in double arithmetic.  When moreover the gravity potentials of
  the perforation are zero and the averaged saturations of its well are finite numbers,
  the perforation pressure is the bottomhole pressure (a binary64 number).
\<close>

theorem perforation_pressure_formula:
  assumes "\<forall>p<length fluxes. pw ! p < nw"
    and "perf < length fluxes" and "length fluxes \<le> length wpp"
  shows "computeWellPerfPressures np nw pw psat fluxes bhp gpot wpp ! perf
           = fold (\<lambda>phase q. q + flux_weighted_saturation pw psat fluxes (pw ! perf) phase
                                   * gpot ! (np * perf + phase))
               [0..<np] (bhp ! (pw ! perf))
         \<and> ((\<forall>phase<np. gpot ! (np * perf + phase) = 0
                        \<and> isfinite (flux_weighted_saturation pw psat fluxes (pw ! perf) phase))
              \<and> representable (bhp ! (pw ! perf))
            \<longrightarrow> computeWellPerfPressures np nw pw psat fluxes bhp gpot wpp ! perf = bhp ! (pw ! perf))"
proof -
  note formula = perf_pressure_value [OF assms, of np psat bhp gpot]
  have "fold (\<lambda>phase q. q + flux_weighted_saturation pw psat fluxes (pw ! perf) phase
                                   * gpot ! (np * perf + phase))
               [0..<np] (bhp ! (pw ! perf)) = bhp ! (pw ! perf)"
    if "\<forall>phase<np. gpot ! (np * perf + phase) = 0
                        \<and> isfinite (flux_weighted_saturation pw psat fluxes (pw ! perf) phase)"
      and "representable (bhp ! (pw ! perf))"
    by (rule fold_plus_zero) (use that in \<open>auto simp: isfinite_times_zero\<close>)
  then show ?thesis
    using formula by simp
qed

theorem perforation_pressure_formula_witness:
  "computeWellPerfPressures 1 1 [0] [[Fin 1]] [Fin 2] [Fin 5] [Fin 0] [Fin 0] ! 0 = Fin 5"
  using perforation_pressure_formula [of "[Fin 2]" "[0]" 1 0 "[Fin 0]" 1 "[[Fin 1]]" "[Fin 5]" "[Fin 0]"]
  by (simp add: total_well_flux_def flux_weighted_saturation_def perfs_of_well_def zero_double_def
      one_double_def rnd_zero)

text \<open>
  With zero gravity potential but zero flux through the single perforation of the
  single well, the averaged saturation is \<open>0 \<cdot> (1/0)\<close>, a NaN, and so is the perforation
  pressure: it is not the bottomhole pressure 5.
\<close>

theorem zero_flux_perforation_pressure_not_bhp:
  "computeWellPerfPressures 1 1 [0] [[Fin 1]] [Fin 0] [Fin 5] [Fin 0] [Fin 0] ! 0 \<noteq> [Fin 5] ! 0"
  by (simp add: computeWellPerfPressures_def well_average_saturations_def well_accumulate_def
      pv_const_def pv_scale_def pv_add_def zero_double_def one_double_def Let_def signed_inf_def
      rnd_zero)

text \<open>
  The same happens with a flux that is not zero but whose reciprocal overflows: the
  averaged saturation is infinite and its product with the zero gravity potential a NaN.
\<close>

lemma overflowing_reciprocal_pressure:
  assumes "0 < t" and "rnd t = Fin t" and "rnd (1 / t) = PInf"
  shows "computeWellPerfPressures 1 1 [0] [[Fin 1]] [Fin t] [Fin 5] [Fin 0] [Fin 0] ! 0 = NaN"
  using assms
  by (simp add: computeWellPerfPressures_def well_average_saturations_def well_accumulate_def
      pv_const_def pv_scale_def pv_add_def zero_double_def one_double_def Let_def rnd_zero
      signed_inf_def)

theorem subnormal_flux_perforation_pressure_not_bhp:
  "computeWellPerfPressures 1 1 [0] [[Fin 1]] [Fin (1 / 2 ^ 1074)] [Fin 5] [Fin 0] [Fin 0] ! 0
     \<noteq> [Fin 5] ! 0"
proof -
  have a: "(0::real) < 1 / 2 ^ 1074" by simp
  have b: "rnd (1 / 2 ^ 1074) = Fin (1 / 2 ^ 1074)"
    using rnd_int_over_pow2 [of 1 1074] by simp
  have "(2::real) ^ 1024 \<le> 2 ^ 1074"
    by (rule power_increasing) simp_all
  then have "rnd (2 ^ 1074) = signed_inf (2 ^ 1074)"
    by (intro rnd_overflow) simp
  then have "rnd (2 ^ 1074) = PInf"
    by (simp only: signed_inf_def zero_less_power zero_less_numeral if_True)
  then have c: "rnd (1 / (1 / 2 ^ 1074)) = PInf"
    by (simp only: divide_divide_eq_right mult_1 div_by_1)
  show ?thesis
    by (simp only: overflowing_reciprocal_pressure [OF a b c] nth_Cons_0) simp
qed



text \<open>
  The sum is the one the code computes.  Fluxes \<open>2 ^ 53\<close>, 1, \<open>- 2 ^ 53\<close> and \<open>- 1\<close> cancel as real
  numbers, but the code's sum of them is \<open>- 1\<close> and the averaged saturation is finite.
\<close>

theorem cancelling_fluxes_sum_not_zero:
  "total_well_flux [0, 0, 0, 0]
      [Fin 9007199254740992, Fin 1, Fin (- 9007199254740992), Fin (- 1)] 0 = Fin (- 1)
   \<and> well_average_saturations 1 1 [0, 0, 0, 0] [[Fin 1], [Fin 1], [Fin 1], [Fin 1]]
      [Fin 9007199254740992, Fin 1, Fin (- 9007199254740992), Fin (- 1)] ! 0 ! 0 = Fin 1"
  by (simp add: total_well_flux_def perfs_of_well_def well_average_saturations_def
      well_accumulate_def pv_const_def pv_scale_def pv_add_def zero_double_def one_double_def
      Let_def rnd_zero rnd_tie_to_even rnd_two_pow_53 rnd_neg_two_pow_53 upt_rec [of _ "numeral k" for k])

section \<open>Properties of the fluid-property evaluation\<close>

lemma computeFluidProps_perf_keeps:
  "\<exists>A M S. snd (computeFluidProps_perf env pp cz i well perf acc)
      = (snd acc)\<lparr>perf_A := A, perf_mob := M, perf_sat := S\<rparr>"
  by (simp add: computeFluidProps_perf_def Let_def) blast

lemma state_self:
  "\<exists>A M S. (st :: 'ps state) = st\<lparr>perf_A := A, perf_mob := M, perf_sat := S\<rparr>"
  by (intro exI [of _ "perf_A st"] exI [of _ "perf_mob st"] exI [of _ "perf_sat st"]) simp

lemma perf_fold_keeps:
  "\<exists>A M S. snd (fold (computeFluidProps_perf env pp cz i well) ps acc)
      = (snd acc)\<lparr>perf_A := A, perf_mob := M, perf_sat := S\<rparr>"
proof (induction ps arbitrary: acc)
  case Nil
  show ?case using state_self [of "snd acc"] by simp
next
  case (Cons p ps)
  obtain A M S where 1: "snd (computeFluidProps_perf env pp cz i well p acc)
      = (snd acc)\<lparr>perf_A := A, perf_mob := M, perf_sat := S\<rparr>"
    using computeFluidProps_perf_keeps by blast
  obtain A' M' S' where 2: "snd (fold (computeFluidProps_perf env pp cz i well) ps
        (computeFluidProps_perf env pp cz i well p acc))
      = (snd (computeFluidProps_perf env pp cz i well p acc))\<lparr>perf_A := A', perf_mob := M', perf_sat := S'\<rparr>"
    using Cons by blast
  show ?case
    by (simp add: 1 2) blast
qed

lemma well_fold_keeps:
  "\<exists>A M S. snd (fold (\<lambda>well acc. fold (computeFluidProps_perf env pp cz (isinj well) well) (ps well) acc) ws acc)
      = (snd acc)\<lparr>perf_A := A, perf_mob := M, perf_sat := S\<rparr>"
proof (induction ws arbitrary: acc)
  case Nil
  show ?case using state_self [of "snd acc"] by simp
next
  case (Cons w ws)
  let ?acc1 = "fold (computeFluidProps_perf env pp cz (isinj w) w) (ps w) acc"
  obtain A M S where 1: "snd ?acc1 = (snd acc)\<lparr>perf_A := A, perf_mob := M, perf_sat := S\<rparr>"
    using perf_fold_keeps by blast
  obtain A' M' S' where 2:
    "snd (fold (\<lambda>well acc. fold (computeFluidProps_perf env pp cz (isinj well) well) (ps well) acc) ws ?acc1)
      = (snd ?acc1)\<lparr>perf_A := A', perf_mob := M', perf_sat := S'\<rparr>"
    using Cons by blast
  show ?case
    by (simp add: 1 2) blast
qed

lemma computeFluidProps_keeps:
  "\<exists>A M S. computeFluidProps env cfg pp ppf cz dt st
     = st\<lparr>fp := fp_compute env (fp st) (gravity cfg) pp ppf cz (inflow_mixture cfg) dt,
          calls := calls st @ [CallFluidProps],
          perf_A := A, perf_mob := M, perf_sat := S\<rparr>"
proof -
  let ?st1 = "st\<lparr>fp := fp_compute env (fp st) (gravity cfg) pp ppf cz (inflow_mixture cfg) dt,
          calls := calls st @ [CallFluidProps]\<rparr>"
  obtain A M S where
    "snd (fold (\<lambda>well acc. fold (computeFluidProps_perf env pp cz (wellIsInjector env well) well)
                  ([0..<numPerforations env well]) acc) [0..<numWells env] (0, ?st1))
      = (snd (0::nat, ?st1))\<lparr>perf_A := A, perf_mob := M, perf_sat := S\<rparr>"
    using well_fold_keeps [of env pp cz "wellIsInjector env" "\<lambda>w. [0..<numPerforations env w]"] by blast
  then show ?thesis
    by (simp add: computeFluidProps_def Let_def) blast
qed

section \<open>Properties of the loop body\<close>

lemma iteration_prologue_calls_fp:
  "iteration_prologue env cfg cell_z dt iter st = r \<Longrightarrow>
   (case r of Continue st' \<Rightarrow> calls st' = calls st @ [CallFluidProps]
    | Return c st' \<Rightarrow> c = VolumeDiscrepancyTooLarge \<and> iter = 0
         \<and> calls st' = calls st @ [CallFluidProps]
         \<and> fp st' = fp_compute env (fp st) (gravity cfg) (cell_pressure st) (face_pressure st)
                        cell_z (inflow_mixture cfg) dt
         \<and> max_relative_voldiscr cfg < max_element (relvoldiscr (fp st'))
    | Throw e st' \<Rightarrow> False)"
proof -
  obtain A M S where k: "computeFluidProps env cfg (cell_pressure (snapshot st)) (face_pressure (snapshot st))
        cell_z dt (snapshot st)
     = (snapshot st)\<lparr>fp := fp_compute env (fp (snapshot st)) (gravity cfg) (cell_pressure (snapshot st))
                            (face_pressure (snapshot st)) cell_z (inflow_mixture cfg) dt,
          calls := calls (snapshot st) @ [CallFluidProps],
          perf_A := A, perf_mob := M, perf_sat := S\<rparr>"
    using computeFluidProps_keeps by blast
  assume "iteration_prologue env cfg cell_z dt iter st = r"
  then show ?thesis
    unfolding iteration_prologue_def Let_def k
    by (auto simp: first_iteration_def Let_def snapshot_def split: if_splits)
qed

lemma prologue_rejects:
  assumes "max_relative_voldiscr cfg
             < max_element (relvoldiscr (fp_compute env (fp st) (gravity cfg) (cell_pressure st)
                 (face_pressure st) cell_z (inflow_mixture cfg) dt))"
  shows "\<exists>st'. iteration_prologue env cfg cell_z dt 0 st = Return VolumeDiscrepancyTooLarge st'"
proof -
  obtain A M S where k: "computeFluidProps env cfg (cell_pressure (snapshot st)) (face_pressure (snapshot st))
        cell_z dt (snapshot st)
     = (snapshot st)\<lparr>fp := fp_compute env (fp (snapshot st)) (gravity cfg) (cell_pressure (snapshot st))
                            (face_pressure (snapshot st)) cell_z (inflow_mixture cfg) dt,
          calls := calls (snapshot st) @ [CallFluidProps],
          perf_A := A, perf_mob := M, perf_sat := S\<rparr>"
    using computeFluidProps_keeps by blast
  show ?thesis
    unfolding iteration_prologue_def Let_def k
    using assms by (simp add: first_iteration_def Let_def snapshot_def)
qed

lemma computeResidualJacobian_calls:
  "calls (fst (computeResidualJacobian env cfg iv cps cpsi bhp src dt res st)) = calls st @ [CallAssemble]"
  by (simp add: computeResidualJacobian_def Let_def)

lemma linearize_cases:
  "linearize env cfg src dt cpsi nc st = r \<Longrightarrow>
   (case r of Continue st' \<Rightarrow> calls st' = calls st @ [CallAssemble, CallLinearSolve]
                  \<and> converged (linear_solver_report env cfg src dt cpsi st)
    | Return c st' \<Rightarrow> False
    | Throw e st' \<Rightarrow> calls st' = calls st @ [CallAssemble, CallLinearSolve]
                  \<and> \<not> converged (linear_solver_report env cfg src dt cpsi st))"
  by (auto simp: linearize_def linear_solver_report_def Let_def computeResidualJacobian_calls
      split: if_splits)

lemma fold_keeps_calls:
  "(\<And>x s. calls (f x s) = calls s) \<Longrightarrow> calls (fold f xs st) = calls st"
  by (induction xs arbitrary: st) simp_all

lemma relaxation_calls: "calls (relaxation cfg nc nf iter st) = calls st"
  by (simp add: relaxation_def Let_def fold_keeps_calls)

lemma back_substitute_calls: "calls (back_substitute env st) = calls st @ [CallPressuresAndFluxes]"
  by (simp add: back_substitute_def split: prod.splits)

lemma publish_calls: "calls (publish env cfg nc nf st) = calls st"
  by (simp add: publish_def Let_def)

lemma convergence_test_cases:
  "convergence_test cfg st = r \<Longrightarrow>
   (case r of Continue st' \<Rightarrow> st' = st
    | Return c st' \<Rightarrow> c = SolveOk \<and> st' = st
        \<and> (fst (computeFluxPressChanges (face_flux st) (well_perf_fluxes st) (cell_pressure_scalar st)
                  (start_face_flux st) (start_perf_flux st) (start_cell_press st)) < flux_rel_tol cfg
            \<or> snd (computeFluxPressChanges (face_flux st) (well_perf_fluxes st) (cell_pressure_scalar st)
                  (start_face_flux st) (start_perf_flux st) (start_cell_press st)) < press_rel_tol cfg)
    | Throw e st' \<Rightarrow> False)"
  by (auto simp: convergence_test_def Let_def split: if_splits)

lemma solve_iteration_cases:
  assumes "solve_iteration env cfg cell_z src dt cpsi iter st = r"
  shows "case r of
      Continue st' \<Rightarrow>
        calls st' = calls st @ [CallFluidProps, CallAssemble, CallLinearSolve, CallPressuresAndFluxes]
    | Return c st' \<Rightarrow>
        (c = VolumeDiscrepancyTooLarge \<and> iter = 0 \<and> calls st' = calls st @ [CallFluidProps])
        \<or> (c = SolveOk
            \<and> calls st' = calls st @ [CallFluidProps, CallAssemble, CallLinearSolve, CallPressuresAndFluxes])
    | Throw e st' \<Rightarrow>
        e = LinearSolverFailed
        \<and> calls st' = calls st @ [CallFluidProps, CallAssemble, CallLinearSolve]"
proof (cases "iteration_prologue env cfg cell_z dt iter st")
  case (Continue st1)
  note p = iteration_prologue_calls_fp [OF Continue, simplified]
  show ?thesis
  proof (cases "linearize env cfg src dt cpsi (length cell_z) st1")
    case c2: (Continue st2)
    note l = linearize_cases [OF c2, simplified]
    let ?st3 = "publish env cfg (length cell_z) (numFaces env)
                  (relaxation cfg (length cell_z) (numFaces env) iter (back_substitute env st2))"
    have c3: "calls ?st3 = calls st @ [CallFluidProps, CallAssemble, CallLinearSolve, CallPressuresAndFluxes]"
      using p l by (simp add: publish_calls relaxation_calls back_substitute_calls)
    have r: "r = convergence_test cfg ?st3"
      using assms Continue c2 by (simp add: solve_iteration_def Let_def)
    show ?thesis
      using convergence_test_cases [OF r [symmetric]] c3
      by (cases r) auto
  next
    case (Return c st2)
    then show ?thesis using linearize_cases [OF Return] by simp
  next
    case (Throw e st2)
    note l = linearize_cases [OF Throw, simplified]
    have "r = Throw e st2"
      using assms Continue Throw by (simp add: solve_iteration_def Let_def)
    then show ?thesis
      using p l by (cases e) simp
  qed
next
  case (Return c st1)
  note p = iteration_prologue_calls_fp [OF Return, simplified]
  have "r = Return c st1"
    using assms Return by (simp add: solve_iteration_def Let_def)
  then show ?thesis using p by simp
next
  case (Throw e st1)
  then show ?thesis using iteration_prologue_calls_fp [OF Throw] by simp
qed

section \<open>Properties of the iteration loop\<close>

lemma solve_loop_unfold:
  "solve_loop env cfg cell_z src dt cpsi iter st =
    (if iter < max_num_iter cfg then
       (case solve_iteration env cfg cell_z src dt cpsi iter st of
          Continue st' \<Rightarrow> solve_loop env cfg cell_z src dt cpsi (iter + 1) st'
        | Return code st' \<Rightarrow> (Inr code, iter, st')
        | Throw e st' \<Rightarrow> (Inl e, iter, st'))
     else (Inr FailedToConverge, iter, st))"
  by (rule solve_loop.simps)

lemma begun_append:
  "calls st' = calls st @ cs \<Longrightarrow>
   iterations_begun st' = iterations_begun st + length (filter (\<lambda>c. c = CallFluidProps) cs)"
  by (simp add: iterations_begun_def)

lemma solve_loop_count:
  "solve_loop env cfg cell_z src dt cpsi iter st = (r, i', st') \<Longrightarrow>
   (r = Inr FailedToConverge \<longrightarrow>
      i' = max iter (max_num_iter cfg)
      \<and> iterations_begun st' = iterations_begun st + nat (max_num_iter cfg - iter))
   \<and> (r \<noteq> Inr FailedToConverge \<longrightarrow>
      iter \<le> i' \<and> i' < max_num_iter cfg
      \<and> iterations_begun st' = iterations_begun st + nat (i' - iter) + 1)"
proof (induction env cfg cell_z src dt cpsi iter st arbitrary: r i' st' rule: solve_loop.induct)
  case (1 env cfg cell_z src dt cpsi iter st)
  show ?case
  proof (cases "iter < max_num_iter cfg")
    case False
    then show ?thesis
      using "1.prems" by (subst (asm) solve_loop_unfold) simp
  next
    case True
    show ?thesis
    proof (cases "solve_iteration env cfg cell_z src dt cpsi iter st")
      case (Continue s1)
      have b: "iterations_begun s1 = iterations_begun st + 1"
        using solve_iteration_cases [OF Continue] by (simp add: begun_append)
      have "solve_loop env cfg cell_z src dt cpsi (iter + 1) s1 = (r, i', st')"
        using "1.prems" True Continue by (subst (asm) solve_loop_unfold) simp
      from "1.IH" [OF True Continue this] b True show ?thesis
        by auto
    next
      case (Return c s1)
      have e: "r = Inr c" "i' = iter" "st' = s1"
        using "1.prems" True Return by (subst (asm) solve_loop_unfold, simp)+
      show ?thesis
        using solve_iteration_cases [OF Return] True e by (auto simp: begun_append)
    next
      case (Throw e s1)
      have e: "r = Inl e" "i' = iter" "st' = s1"
        using "1.prems" True Throw by (subst (asm) solve_loop_unfold, simp)+
      show ?thesis
        using solve_iteration_cases [OF Throw] True e by (auto simp: begun_append)
    qed
  qed
qed

lemma solve_loop_rejection:
  "solve_loop env cfg cell_z src dt cpsi iter st = (Inr VolumeDiscrepancyTooLarge, i', st') \<Longrightarrow>
   0 \<le> iter \<Longrightarrow> iter = 0 \<and> i' = 0 \<and> calls st' = calls st @ [CallFluidProps]"
proof (induction env cfg cell_z src dt cpsi iter st arbitrary: i' st' rule: solve_loop.induct)
  case (1 env cfg cell_z src dt cpsi iter st)
  show ?case
  proof (cases "iter < max_num_iter cfg")
    case False
    then show ?thesis
      using "1.prems" by (subst (asm) solve_loop_unfold) simp
  next
    case True
    show ?thesis
    proof (cases "solve_iteration env cfg cell_z src dt cpsi iter st")
      case (Continue s1)
      have "solve_loop env cfg cell_z src dt cpsi (iter + 1) s1 = (Inr VolumeDiscrepancyTooLarge, i', st')"
        using "1.prems" True Continue by (subst (asm) solve_loop_unfold) simp
      from "1.IH" [OF True Continue this] "1.prems"(2) show ?thesis
        by simp
    next
      case (Return c s1)
      have e: "c = VolumeDiscrepancyTooLarge" "i' = iter" "st' = s1"
        using "1.prems" True Return by (subst (asm) solve_loop_unfold, simp)+
      show ?thesis
        using solve_iteration_cases [OF Return] e by auto
    next
      case (Throw e s1)
      then show ?thesis
        using "1.prems" True by (subst (asm) solve_loop_unfold) simp
    qed
  qed
qed

lemma state_at_reach:
  "state_at env cfg cell_z src dt cpsi k st0 = Some s \<Longrightarrow>
   solve_loop env cfg cell_z src dt cpsi 0 st0 = solve_loop env cfg cell_z src dt cpsi (int k) s"
proof (induction k arbitrary: s)
  case 0
  then show ?case by simp
next
  case (Suc k)
  from Suc.prems obtain s0 where
    s0: "state_at env cfg cell_z src dt cpsi k st0 = Some s0"
    and lt: "int k < max_num_iter cfg"
    and it: "solve_iteration env cfg cell_z src dt cpsi (int k) s0 = Continue s"
    by (auto split: option.splits if_splits step.splits)
  have "solve_loop env cfg cell_z src dt cpsi (int k) s0
      = solve_loop env cfg cell_z src dt cpsi (int k + 1) s"
    using lt it by (subst solve_loop_unfold) simp
  then show ?case
    using Suc.IH [OF s0] by (simp add: add.commute)
qed

lemma state_at_all:
  assumes "\<And>k s. state_at env cfg cell_z src dt cpsi k st0 = Some s \<Longrightarrow> int k < max_num_iter cfg \<Longrightarrow>
             \<exists>s'. solve_iteration env cfg cell_z src dt cpsi (int k) s = Continue s'"
  shows "int k \<le> max_num_iter cfg \<Longrightarrow> \<exists>s. state_at env cfg cell_z src dt cpsi k st0 = Some s"
proof (induction k)
  case 0
  show ?case by simp
next
  case (Suc k)
  then obtain s where s: "state_at env cfg cell_z src dt cpsi k st0 = Some s" by auto
  have lt: "int k < max_num_iter cfg" using Suc.prems by simp
  from assms [OF s lt] obtain s' where "solve_iteration env cfg cell_z src dt cpsi (int k) s = Continue s'"
    by blast
  then show ?case using s lt by simp
qed

lemma init_calls: "calls (solve_init env cell_z st) = []"
  by (simp add: solve_init_def Let_def)

lemma init_frame:
  "fp (solve_init env cell_z st) = fp st"
  "cell_pressure (solve_init env cell_z st) = cell_pressure st"
  "face_pressure (solve_init env cell_z st) = face_pressure st"
  by (simp_all add: solve_init_def Let_def)

lemmas demo_defs = demo_env_def demo_cfg_def demo_state_def demo_fluid_def demo_system_def

lemmas model_defs = solve_def solve_loop.simps solve_init_def initial_cell_pressure_def solve_iteration_def
  iteration_prologue_def snapshot_def computeFluidProps_def first_iteration_def
  computeWellPotentials_def resize_def linearize_def back_substitute_def relaxation_def
  publish_def computeWellPerfPressures_def well_average_saturations_def convergence_test_def
  computeFluxPressChanges_def min_element_def max_element_def dmax_def dmin_def dne_def
  pv_const_def Let_def zero_double_def one_double_def minus_double_def

text \<open>
  Claim C1, as the code has it.  A call of \<^verbatim>\<open>solve\<close> with \<^verbatim>\<open>max_num_iter_\<close> \<open>= N\<close> begins
  at most \<open>N\<close> iterations (none when \<open>N \<le> 0\<close>) and ends in one of four ways: the
  exception of the linear solver, or one of the three return codes.  It returns
  \<^verbatim>\<open>FailedToConverge\<close> only after exactly \<open>N\<close> iterations, and it does return
  \<^verbatim>\<open>FailedToConverge\<close> when no iteration it reaches converges, is rejected for its
  volume discrepancy, or throws.
\<close>

theorem solve_terminates_within_budget:
  assumes "solve env cfg cell_z src dt st = (r, iter, st')"
  shows "iterations_begun st' \<le> nat (max_num_iter cfg)
     \<and> (r = Inl LinearSolverFailed \<or> r = Inr SolveOk \<or> r = Inr VolumeDiscrepancyTooLarge
         \<or> r = Inr FailedToConverge)
     \<and> (r = Inr FailedToConverge \<longrightarrow> iterations_begun st' = nat (max_num_iter cfg))
     \<and> ((\<forall>k s. state_at env cfg cell_z src dt (initial_cell_pressure env cell_z st) k
                   (solve_init env cell_z st) = Some s \<longrightarrow> int k < max_num_iter cfg \<longrightarrow>
             (\<forall>s'. solve_iteration env cfg cell_z src dt (initial_cell_pressure env cell_z st) (int k) s
                     \<noteq> Return SolveOk s')
           \<and> (\<forall>s'. solve_iteration env cfg cell_z src dt (initial_cell_pressure env cell_z st) (int k) s
                     \<noteq> Return VolumeDiscrepancyTooLarge s')
           \<and> (\<forall>e s'. solve_iteration env cfg cell_z src dt (initial_cell_pressure env cell_z st) (int k) s
                     \<noteq> Throw e s'))
          \<longrightarrow> r = Inr FailedToConverge)"
proof -
  let ?cpsi = "initial_cell_pressure env cell_z st"
  let ?init = "solve_init env cell_z st"
  have loop: "solve_loop env cfg cell_z src dt ?cpsi 0 ?init = (r, iter, st')"
    using assms by (simp add: solve_def)
  have b0: "iterations_begun ?init = 0"
    by (simp add: iterations_begun_def init_calls)
  note cnt = solve_loop_count [OF loop, unfolded b0]
  have bound: "iterations_begun st' \<le> nat (max_num_iter cfg)"
    using cnt by (cases "r = Inr FailedToConverge") auto
  have codes: "r = Inl LinearSolverFailed \<or> r = Inr SolveOk \<or> r = Inr VolumeDiscrepancyTooLarge
         \<or> r = Inr FailedToConverge"
  proof (cases r)
    case (Inl e)
    then show ?thesis by (cases e) simp
  next
    case (Inr c)
    then show ?thesis by (cases c) simp_all
  qed
  have exact: "r = Inr FailedToConverge \<longrightarrow> iterations_begun st' = nat (max_num_iter cfg)"
    using cnt by simp
  have pos: "r = Inr FailedToConverge"
    if h: "\<forall>k s. state_at env cfg cell_z src dt ?cpsi k ?init = Some s \<longrightarrow> int k < max_num_iter cfg \<longrightarrow>
             (\<forall>s'. solve_iteration env cfg cell_z src dt ?cpsi (int k) s \<noteq> Return SolveOk s')
           \<and> (\<forall>s'. solve_iteration env cfg cell_z src dt ?cpsi (int k) s \<noteq> Return VolumeDiscrepancyTooLarge s')
           \<and> (\<forall>e s'. solve_iteration env cfg cell_z src dt ?cpsi (int k) s \<noteq> Throw e s')"
  proof -
    have cont: "\<exists>s'. solve_iteration env cfg cell_z src dt ?cpsi (int k) s = Continue s'"
      if "state_at env cfg cell_z src dt ?cpsi k ?init = Some s" "int k < max_num_iter cfg" for k s
    proof (cases "solve_iteration env cfg cell_z src dt ?cpsi (int k) s")
      case (Continue s')
      then show ?thesis by simp
    next
      case (Return c s')
      then show ?thesis
        using solve_iteration_cases [OF Return] h that by auto
    next
      case (Throw e s')
      then show ?thesis using h that by blast
    qed
    show ?thesis
    proof (cases "0 \<le> max_num_iter cfg")
      case True
      then obtain s where s: "state_at env cfg cell_z src dt ?cpsi (nat (max_num_iter cfg)) ?init = Some s"
        using state_at_all [of env cfg cell_z src dt ?cpsi ?init "nat (max_num_iter cfg)"] cont
        by auto
      have "solve_loop env cfg cell_z src dt ?cpsi 0 ?init
          = solve_loop env cfg cell_z src dt ?cpsi (max_num_iter cfg) s"
        using state_at_reach [OF s] True by simp
      also have "\<dots> = (Inr FailedToConverge, max_num_iter cfg, s)"
        by (subst solve_loop_unfold) simp
      finally show ?thesis using loop by simp
    next
      case False
      then have "solve_loop env cfg cell_z src dt ?cpsi 0 ?init = (Inr FailedToConverge, 0, ?init)"
        by (subst solve_loop_unfold) simp
      then show ?thesis using loop by simp
    qed
  qed
  show ?thesis
    using bound codes exact pos by blast
qed

theorem solve_terminates_within_budget_witness:
  "fst (solve (demo_env True) demo_cfg [[Fin 1]] [Fin 0] (Fin 1) demo_state) = Inr FailedToConverge
   \<and> iterations_begun (snd (snd (solve (demo_env True) demo_cfg [[Fin 1]] [Fin 0] (Fin 1) demo_state)))
       = nat (max_num_iter demo_cfg)"
proof -
  let ?res = "solve (demo_env True) demo_cfg [[Fin 1]] [Fin 0] (Fin 1) demo_state"
  have r: "fst ?res = Inr FailedToConverge"
    by (simp add: model_defs demo_defs)
  have "?res = (fst ?res, fst (snd ?res), snd (snd ?res))"
    by simp
  from solve_terminates_within_budget [OF this] r show ?thesis
    by simp
qed

text \<open>With a linear solver that reports no convergence, \<^verbatim>\<open>solve\<close> gives none of the three
  return codes.\<close>

theorem linear_solver_failure_escapes_budget:
  "fst (solve (demo_env False) demo_cfg [[Fin 1]] [Fin 0] (Fin 1) demo_state)
     \<notin> {Inr SolveOk, Inr VolumeDiscrepancyTooLarge, Inr FailedToConverge}"
  by (simp add: model_defs demo_defs)

text \<open>
  Claim C2.  If the loop runs at all and the largest relative volume discrepancy of the
  first fluid-property evaluation is above \<^verbatim>\<open>max_relative_voldiscr_\<close>, then \<^verbatim>\<open>solve\<close>
  returns \<^verbatim>\<open>VolumeDiscrepancyTooLarge\<close> in iteration 0, and the only collaborator call
  made is that evaluation: nothing is assembled or solved.  And whenever \<^verbatim>\<open>solve\<close>
  returns \<^verbatim>\<open>VolumeDiscrepancyTooLarge\<close> it does so in iteration 0, before any assembly.
\<close>

theorem volume_discrepancy_rejected_before_assembly:
  "(0 < max_num_iter cfg
      \<and> max_relative_voldiscr cfg
           < max_element (relvoldiscr (fp_compute env (fp st) (gravity cfg) (cell_pressure st)
               (face_pressure st) cell_z (inflow_mixture cfg) dt))
    \<longrightarrow> (\<exists>st'. solve env cfg cell_z src dt st = (Inr VolumeDiscrepancyTooLarge, 0, st')
               \<and> calls st' = [CallFluidProps]))
   \<and> (solve env cfg cell_z src dt st = (Inr VolumeDiscrepancyTooLarge, iter, st')
        \<longrightarrow> iter = 0 \<and> calls st' = [CallFluidProps])"
proof -
  let ?cpsi = "initial_cell_pressure env cell_z st"
  let ?init = "solve_init env cell_z st"
  have first: "\<exists>st'. solve env cfg cell_z src dt st = (Inr VolumeDiscrepancyTooLarge, 0, st')
               \<and> calls st' = [CallFluidProps]"
    if n: "0 < max_num_iter cfg"
      and v: "max_relative_voldiscr cfg
           < max_element (relvoldiscr (fp_compute env (fp st) (gravity cfg) (cell_pressure st)
               (face_pressure st) cell_z (inflow_mixture cfg) dt))"
  proof -
    obtain s1 where p: "iteration_prologue env cfg cell_z dt 0 ?init = Return VolumeDiscrepancyTooLarge s1"
      using prologue_rejects [of cfg env ?init cell_z dt] v by (auto simp: init_frame)
    then have it: "solve_iteration env cfg cell_z src dt ?cpsi 0 ?init = Return VolumeDiscrepancyTooLarge s1"
      by (simp add: solve_iteration_def Let_def)
    have "solve env cfg cell_z src dt st = (Inr VolumeDiscrepancyTooLarge, 0, s1)"
      unfolding solve_def using n it by (subst solve_loop_unfold) simp
    moreover have "calls s1 = [CallFluidProps]"
      using iteration_prologue_calls_fp [OF p] by (simp add: init_calls)
    ultimately show ?thesis by blast
  qed
  have only: "iter = 0 \<and> calls st' = [CallFluidProps]"
    if "solve env cfg cell_z src dt st = (Inr VolumeDiscrepancyTooLarge, iter, st')"
    using solve_loop_rejection [of env cfg cell_z src dt ?cpsi 0 ?init iter st'] that
    by (simp add: solve_def init_calls)
  show ?thesis
    using first only by blast
qed

theorem volume_discrepancy_rejected_before_assembly_witness:
  "fst (solve ((demo_env True)\<lparr>fp_compute := (\<lambda>f g pp ppf cz mix dt. demo_fluid\<lparr>relvoldiscr := [Fin 1]\<rparr>)\<rparr>)
         demo_cfg [[Fin 1]] [Fin 0] (Fin 1) demo_state) = Inr VolumeDiscrepancyTooLarge
   \<and> calls (snd (snd (solve ((demo_env True)\<lparr>fp_compute := (\<lambda>f g pp ppf cz mix dt. demo_fluid\<lparr>relvoldiscr := [Fin 1]\<rparr>)\<rparr>)
          demo_cfg [[Fin 1]] [Fin 0] (Fin 1) demo_state))) = [CallFluidProps]"
proof -
  let ?env = "(demo_env True)\<lparr>fp_compute := (\<lambda>f g pp ppf cz mix dt. demo_fluid\<lparr>relvoldiscr := [Fin 1]\<rparr>)\<rparr>"
  have h: "0 < max_num_iter demo_cfg
      \<and> max_relative_voldiscr demo_cfg
           < max_element (relvoldiscr (fp_compute ?env (fp demo_state) (gravity demo_cfg) (cell_pressure demo_state)
               (face_pressure demo_state) [[Fin 1]] (inflow_mixture demo_cfg) (Fin 1)))"
    by (simp add: demo_defs max_element_def)
  from volume_discrepancy_rejected_before_assembly
         [of demo_cfg ?env demo_state "[[Fin 1]]" "Fin 1" "[Fin 0]", THEN conjunct1, rule_format, OF h]
  obtain st' where "solve ?env demo_cfg [[Fin 1]] [Fin 0] (Fin 1) demo_state
      = (Inr VolumeDiscrepancyTooLarge, 0, st')" and "calls st' = [CallFluidProps]"
    by blast
  then show ?thesis by simp
qed

text \<open>
  Claim C5.  Let iteration \<open>k\<close> be reached and pass its prologue.  If the linear solver
  then reports no convergence, on the standard or on the quasi-Newton path, \<^verbatim>\<open>solve\<close>
  ends with the exception in that iteration: it returns no code, and after the one
  assembly and the one linear solve of the iteration no further call is made.
\<close>

theorem linear_solver_failure_is_fatal:
  assumes "state_at env cfg cell_z src dt (initial_cell_pressure env cell_z st0) k
             (solve_init env cell_z st0) = Some st"
    and "int k < max_num_iter cfg"
    and "iteration_prologue env cfg cell_z dt (int k) st = Continue st1"
    and "\<not> converged (linear_solver_report env cfg src dt (initial_cell_pressure env cell_z st0) st1)"
  shows "\<exists>st'. solve env cfg cell_z src dt st0 = (Inl LinearSolverFailed, int k, st')
           \<and> calls st' = calls st1 @ [CallAssemble, CallLinearSolve]"
proof -
  let ?cpsi = "initial_cell_pressure env cell_z st0"
  obtain e st' where l: "linearize env cfg src dt ?cpsi (length cell_z) st1 = Throw e st'"
    using linearize_cases [of env cfg src dt ?cpsi "length cell_z" st1] assms(4)
    by (cases "linearize env cfg src dt ?cpsi (length cell_z) st1") auto
  have e: "e = LinearSolverFailed" by (cases e) simp
  have c: "calls st' = calls st1 @ [CallAssemble, CallLinearSolve]"
    using linearize_cases [OF l] by simp
  have it: "solve_iteration env cfg cell_z src dt ?cpsi (int k) st = Throw LinearSolverFailed st'"
    using assms(3) l e by (simp add: solve_iteration_def Let_def)
  have "solve env cfg cell_z src dt st0 = solve_loop env cfg cell_z src dt ?cpsi (int k) st"
    unfolding solve_def by (rule state_at_reach [OF assms(1)])
  also have "\<dots> = (Inl LinearSolverFailed, int k, st')"
    using assms(2) it by (subst solve_loop_unfold) simp
  finally show ?thesis using c by blast
qed

theorem linear_solver_failure_is_fatal_witness:
  "fst (solve (demo_env False) demo_cfg [[Fin 1]] [Fin 0] (Fin 1) demo_state) = Inl LinearSolverFailed
   \<and> fst (solve ((demo_env False)) (demo_cfg\<lparr>experimental_jacobian := True\<rparr>) [[Fin 1]] [Fin 0] (Fin 1) demo_state)
       = Inl LinearSolverFailed"
proof -
  let ?env = "demo_env False"
  let ?cj = "demo_cfg\<lparr>experimental_jacobian := True\<rparr>"
  let ?cpsi = "initial_cell_pressure ?env [[Fin 1]] demo_state"
  let ?init = "solve_init ?env [[Fin 1]] demo_state"
  have s: "state_at ?env cfg [[Fin 1]] [Fin 0] (Fin 1) ?cpsi 0 ?init = Some ?init" for cfg
    by simp
  obtain st1 where p1: "iteration_prologue ?env demo_cfg [[Fin 1]] (Fin 1) (int 0) ?init = Continue st1"
    and r1: "\<not> converged (linear_solver_report ?env demo_cfg [Fin 0] (Fin 1) ?cpsi st1)"
    by (simp add: model_defs demo_defs linear_solver_report_def)
  obtain st2 where p2: "iteration_prologue ?env ?cj [[Fin 1]] (Fin 1) (int 0) ?init = Continue st2"
    and r2: "\<not> converged (linear_solver_report ?env ?cj [Fin 0] (Fin 1) ?cpsi st2)"
    by (simp add: model_defs demo_defs linear_solver_report_def)
  have n1: "int 0 < max_num_iter demo_cfg" and n2: "int 0 < max_num_iter ?cj"
    by (simp_all add: demo_cfg_def)
  from linear_solver_failure_is_fatal [OF s n1 p1 r1] linear_solver_failure_is_fatal [OF s n2 p2 r2]
  show ?thesis by auto
qed

lemma relaxation_at_one:
  "relax_weight_pressure_iteration cfg = 1 \<Longrightarrow> relaxation cfg nc nf iter st = st"
  by (simp add: relaxation_def dne_def one_double_def)

lemma solve_iteration_at_one:
  "relax_weight_pressure_iteration cfg = 1 \<Longrightarrow>
   solve_iteration env cfg cell_z src dt cpsi iter st
     = solve_iteration_unrelaxed env cfg cell_z src dt cpsi iter st"
  by (simp add: solve_iteration_def solve_iteration_unrelaxed_def relaxation_at_one Let_def
      split: step.splits)

lemma solve_loop_at_one:
  "relax_weight_pressure_iteration cfg = 1 \<Longrightarrow>
   solve_loop env cfg cell_z src dt cpsi iter st
     = solve_loop_unrelaxed env cfg cell_z src dt cpsi iter st"
proof (induction env cfg cell_z src dt cpsi iter st rule: solve_loop.induct)
  case (1 env cfg cell_z src dt cpsi iter st)
  show ?case
  proof (cases "iter < max_num_iter cfg")
    case False
    then show ?thesis
      by (subst solve_loop.simps, subst solve_loop_unrelaxed.simps) simp
  next
    case True
    show ?thesis
    proof (cases "solve_iteration env cfg cell_z src dt cpsi iter st")
      case (Continue s1)
      with True "1.IH" [OF True Continue "1.prems"] "1.prems" show ?thesis
        by (subst solve_loop.simps, subst solve_loop_unrelaxed.simps)
           (simp add: solve_iteration_at_one [symmetric])
    next
      case (Return c s1)
      with True "1.prems" show ?thesis
        by (subst solve_loop.simps, subst solve_loop_unrelaxed.simps)
           (simp add: solve_iteration_at_one [symmetric])
    next
      case (Throw e s1)
      with True "1.prems" show ?thesis
        by (subst solve_loop.simps, subst solve_loop_unrelaxed.simps)
           (simp add: solve_iteration_at_one [symmetric])
    qed
  qed
qed

text \<open>
  Claim C7.  With the relaxation weight equal to 1 every pass through the loop body, and
  so the whole of \<^verbatim>\<open>solve\<close> (the exception or return code, the final iteration count
  and the final state with all pressures and fluxes), is that of the loop without the
  relaxation block.
\<close>

theorem relaxation_weight_one_is_unrelaxed:
  assumes "relax_weight_pressure_iteration cfg = 1"
  shows "solve env cfg cell_z src dt st = solve_unrelaxed env cfg cell_z src dt st
       \<and> (\<forall>cpsi iter s. solve_iteration env cfg cell_z src dt cpsi iter s
                           = solve_iteration_unrelaxed env cfg cell_z src dt cpsi iter s)"
  using assms by (simp add: solve_def solve_unrelaxed_def solve_loop_at_one solve_iteration_at_one)

theorem relaxation_weight_one_is_unrelaxed_witness:
  "relax_weight_pressure_iteration demo_cfg = 1
   \<and> solve (demo_env True) demo_cfg [[Fin 1]] [Fin 0] (Fin 1) demo_state
       = solve_unrelaxed (demo_env True) demo_cfg [[Fin 1]] [Fin 0] (Fin 1) demo_state"
  using relaxation_weight_one_is_unrelaxed [of demo_cfg "demo_env True" "[[Fin 1]]" "[Fin 0]" "Fin 1" demo_state]
  by (simp add: demo_cfg_def one_double_def)

section \<open>Properties of the relaxation\<close>

lemma iteration_prologue_start:
  assumes "iteration_prologue env cfg cell_z dt iter st = Continue st1"
  shows "start_cell_press st1 = cell_pressure_scalar st
       \<and> start_face_pressure st1 = face_pressure_scalar st
       \<and> start_face_flux st1 = face_flux st"
proof -
  obtain A M S where k: "computeFluidProps env cfg (cell_pressure (snapshot st)) (face_pressure (snapshot st))
        cell_z dt (snapshot st)
     = (snapshot st)\<lparr>fp := fp_compute env (fp (snapshot st)) (gravity cfg) (cell_pressure (snapshot st))
                            (face_pressure (snapshot st)) cell_z (inflow_mixture cfg) dt,
          calls := calls (snapshot st) @ [CallFluidProps],
          perf_A := A, perf_mob := M, perf_sat := S\<rparr>"
    using computeFluidProps_keeps by blast
  show ?thesis
    using assms unfolding iteration_prologue_def Let_def k
    by (auto simp: first_iteration_def Let_def snapshot_def split: if_splits)
qed

lemma linearize_start:
  "linearize env cfg src dt cpsi nc st = Continue st' \<Longrightarrow>
   start_cell_press st' = start_cell_press st
   \<and> start_face_pressure st' = start_face_pressure st
   \<and> start_face_flux st' = start_face_flux st"
  by (auto simp: linearize_def Let_def computeResidualJacobian_def split: if_splits)

lemma back_substitute_start:
  "start_cell_press (back_substitute env st) = start_cell_press st
   \<and> start_face_pressure (back_substitute env st) = start_face_pressure st
   \<and> start_face_flux (back_substitute env st) = start_face_flux st"
  by (simp add: back_substitute_def split: prod.splits)

lemma face_relax_loop:
  "n \<le> length (face_pressure_scalar st) \<Longrightarrow> n \<le> length (face_flux st) \<Longrightarrow>
   fold (\<lambda>face st.
           (let st = st\<lparr>face_pressure_scalar := (face_pressure_scalar st)
                       [face := ww * face_pressure_scalar st ! face
                                + (1 - ww) * start_face_pressure st ! face]\<rparr>
            in st\<lparr>face_flux := (face_flux st)
                       [face := ww * face_flux st ! face + (1 - ww) * start_face_flux st ! face]\<rparr>))
     [0..<n] st
   = st\<lparr>face_pressure_scalar :=
          map (\<lambda>f. if f < n then ww * face_pressure_scalar st ! f + (1 - ww) * start_face_pressure st ! f
                    else face_pressure_scalar st ! f) [0..<length (face_pressure_scalar st)],
        face_flux :=
          map (\<lambda>f. if f < n then ww * face_flux st ! f + (1 - ww) * start_face_flux st ! f
                    else face_flux st ! f) [0..<length (face_flux st)]\<rparr>"
    (is "_ \<Longrightarrow> _ \<Longrightarrow> fold ?F [0..<n] st = ?R n")
proof (induction n)
  case 0
  show ?case by (simp add: map_nth)
next
  case (Suc n)
  have "fold ?F [0..<Suc n] st = ?F n (fold ?F [0..<n] st)"
    by simp
  also have "\<dots> = ?F n (?R n)"
    using Suc by simp
  also have "\<dots> = ?R (Suc n)"
  proof -
    have 1: "(map (\<lambda>f. if f < n then ww * face_pressure_scalar st ! f + (1 - ww) * start_face_pressure st ! f
                    else face_pressure_scalar st ! f) [0..<length (face_pressure_scalar st)])
         [n := ww * face_pressure_scalar st ! n + (1 - ww) * start_face_pressure st ! n]
       = map (\<lambda>f. if f < Suc n then ww * face_pressure_scalar st ! f + (1 - ww) * start_face_pressure st ! f
                    else face_pressure_scalar st ! f) [0..<length (face_pressure_scalar st)]"
      by (rule nth_equalityI) (use Suc.prems in \<open>auto simp: nth_list_update less_Suc_eq\<close>)
    have 2: "(map (\<lambda>f. if f < n then ww * face_flux st ! f + (1 - ww) * start_face_flux st ! f
                    else face_flux st ! f) [0..<length (face_flux st)])
         [n := ww * face_flux st ! n + (1 - ww) * start_face_flux st ! n]
       = map (\<lambda>f. if f < Suc n then ww * face_flux st ! f + (1 - ww) * start_face_flux st ! f
                    else face_flux st ! f) [0..<length (face_flux st)]"
      by (rule nth_equalityI) (use Suc.prems in \<open>auto simp: nth_list_update less_Suc_eq\<close>)
    show ?thesis
      using Suc.prems by (simp add: Let_def 1 2)
  qed
  finally show ?case .
qed

lemma iteration_fresh_cases:
  assumes "iteration_fresh env cfg cell_z src dt cpsi iter st = Some fresh"
  obtains st1 st2 where "iteration_prologue env cfg cell_z dt iter st = Continue st1"
    and "linearize env cfg src dt cpsi (length cell_z) st1 = Continue st2"
    and "fresh = back_substitute env st2"
proof (cases "iteration_prologue env cfg cell_z dt iter st")
  case (Continue st1)
  show ?thesis
  proof (cases "linearize env cfg src dt cpsi (length cell_z) st1")
    case c2: (Continue st2)
    have "fresh = back_substitute env st2"
      using assms by (simp add: iteration_fresh_def Continue c2)
    then show ?thesis using that Continue c2 by blast
  next
    case (Return c st2)
    then show ?thesis using assms by (simp add: iteration_fresh_def Continue)
  next
    case (Throw e st2)
    then show ?thesis using assms by (simp add: iteration_fresh_def Continue)
  qed
next
  case (Return c st1)
  then show ?thesis using assms by (simp add: iteration_fresh_def)
next
  case (Throw e st1)
  then show ?thesis using assms by (simp add: iteration_fresh_def)
qed

lemma iteration_fresh_start:
  assumes "iteration_fresh env cfg cell_z src dt cpsi iter st = Some fresh"
  shows "start_cell_press fresh = cell_pressure_scalar st
       \<and> start_face_pressure fresh = face_pressure_scalar st
       \<and> start_face_flux fresh = face_flux st"
proof -
  from assms obtain st1 st2 where p: "iteration_prologue env cfg cell_z dt iter st = Continue st1"
    and l: "linearize env cfg src dt cpsi (length cell_z) st1 = Continue st2"
    and f: "fresh = back_substitute env st2"
    by (rule iteration_fresh_cases)
  show ?thesis
    using iteration_prologue_start [OF p] linearize_start [OF l] back_substitute_start [of env st2]
    by (simp only: f)
qed

lemma iteration_after_fresh:
  assumes "iteration_fresh env cfg cell_z src dt cpsi iter st = Some fresh"
  shows "solve_iteration env cfg cell_z src dt cpsi iter st
     = convergence_test cfg (publish env cfg (length cell_z) (numFaces env)
         (relaxation cfg (length cell_z) (numFaces env) iter fresh))"
proof -
  from assms obtain st1 st2 where p: "iteration_prologue env cfg cell_z dt iter st = Continue st1"
    and l: "linearize env cfg src dt cpsi (length cell_z) st1 = Continue st2"
    and f: "fresh = back_substitute env st2"
    by (rule iteration_fresh_cases)
  show ?thesis
    by (simp add: solve_iteration_def Let_def p l f)
qed

lemma publish_keeps:
  "cell_pressure_scalar (publish env cfg nc nf st) = cell_pressure_scalar st
   \<and> face_pressure_scalar (publish env cfg nc nf st) = face_pressure_scalar st
   \<and> face_flux (publish env cfg nc nf st) = face_flux st"
  by (simp add: publish_def Let_def)

lemma relaxation_first_faces:
  "iter \<le> 0 \<Longrightarrow>
   face_pressure_scalar (relaxation cfg nc nf iter st) = face_pressure_scalar st
   \<and> face_flux (relaxation cfg nc nf iter st) = face_flux st"
  by (simp add: relaxation_def Let_def)

lemma relaxation_cells:
  assumes "dne (relax_weight_pressure_iteration cfg) 1"
    and "cell < nc" and "nc \<le> length (cell_pressure_scalar st)"
  shows "cell_pressure_scalar (relaxation cfg nc nf iter st) ! cell
     = relax_weight_pressure_iteration cfg * cell_pressure_scalar st ! cell
       + (1 - relax_weight_pressure_iteration cfg) * start_cell_press st ! cell"
proof -
  let ?ww = "relax_weight_pressure_iteration cfg"
  let ?st1 = "st\<lparr>cell_pressure_scalar :=
                   fold (\<lambda>cell cps. cps[cell := ?ww * cps ! cell + (1 - ?ww) * start_cell_press st ! cell])
                     [0..<nc] (cell_pressure_scalar st)\<rparr>"
  have keep: "cell_pressure_scalar (fold f xs s) = cell_pressure_scalar s"
    if "\<And>x s. cell_pressure_scalar (f x s) = cell_pressure_scalar s" for f :: "nat \<Rightarrow> 'a state \<Rightarrow> 'a state"
      and xs s
    using that by (induction xs arbitrary: s) simp_all
  have "cell_pressure_scalar (relaxation cfg nc nf iter st) = cell_pressure_scalar ?st1"
    using assms(1) by (simp add: relaxation_def Let_def keep)
  also have "\<dots> = map (\<lambda>c. if c < nc then ?ww * cell_pressure_scalar st ! c + (1 - ?ww) * start_cell_press st ! c
                            else cell_pressure_scalar st ! c) [0..<length (cell_pressure_scalar st)]"
    using scale_loop [OF assms(3), of "\<lambda>c v. ?ww * v + (1 - ?ww) * start_cell_press st ! c"]
    by simp
  finally show ?thesis using assms(2,3) by simp
qed

lemma relaxation_faces:
  assumes "dne (relax_weight_pressure_iteration cfg) 1" and "0 < iter"
    and "face < nf" and "nf \<le> length (face_pressure_scalar st)" and "nf \<le> length (face_flux st)"
  shows "face_pressure_scalar (relaxation cfg nc nf iter st) ! face
     = relax_weight_pressure_iteration cfg * face_pressure_scalar st ! face
       + (1 - relax_weight_pressure_iteration cfg) * start_face_pressure st ! face
   \<and> face_flux (relaxation cfg nc nf iter st) ! face
     = relax_weight_pressure_iteration cfg * face_flux st ! face
       + (1 - relax_weight_pressure_iteration cfg) * start_face_flux st ! face"
proof -
  let ?ww = "relax_weight_pressure_iteration cfg"
  let ?st1 = "st\<lparr>cell_pressure_scalar :=
                   fold (\<lambda>cell cps. cps[cell := ?ww * cps ! cell + (1 - ?ww) * start_cell_press st ! cell])
                     [0..<nc] (cell_pressure_scalar st)\<rparr>"
  have "relaxation cfg nc nf iter st
      = fold (\<lambda>face st.
           (let st = st\<lparr>face_pressure_scalar := (face_pressure_scalar st)
                       [face := ?ww * face_pressure_scalar st ! face
                                + (1 - ?ww) * start_face_pressure st ! face]\<rparr>
            in st\<lparr>face_flux := (face_flux st)
                       [face := ?ww * face_flux st ! face + (1 - ?ww) * start_face_flux st ! face]\<rparr>))
          [0..<nf] ?st1"
    using assms(1,2) by (simp add: relaxation_def Let_def)
  also have "\<dots> = ?st1\<lparr>face_pressure_scalar :=
          map (\<lambda>f. if f < nf then ?ww * face_pressure_scalar ?st1 ! f + (1 - ?ww) * start_face_pressure ?st1 ! f
                    else face_pressure_scalar ?st1 ! f) [0..<length (face_pressure_scalar ?st1)],
        face_flux :=
          map (\<lambda>f. if f < nf then ?ww * face_flux ?st1 ! f + (1 - ?ww) * start_face_flux ?st1 ! f
                    else face_flux ?st1 ! f) [0..<length (face_flux ?st1)]\<rparr>"
    by (rule face_relax_loop) (use assms(4,5) in simp_all)
  finally show ?thesis
    using assms(3,4,5) by simp
qed

text \<open>
  Claim C6.  Let the relaxation weight \<open>w\<close> differ from 1 and let an iteration reach its
  back-substitution, with freshly computed state \<open>fresh\<close>.  Then the iteration ends its
  body normally, and every cell pressure is \<open>w\<close> times the fresh value plus \<open>1 - w\<close> times
  the value at the start of the iteration.  After the first iteration the face pressures
  and the face fluxes are blended in the same way; in iteration 0 they keep the fresh
  values.
\<close>

theorem relaxation_blends_with_previous_iterate:
  assumes "dne (relax_weight_pressure_iteration cfg) 1"
    and "iteration_fresh env cfg cell_z src dt cpsi iter st = Some fresh"
  shows "\<exists>st'. (solve_iteration env cfg cell_z src dt cpsi iter st = Continue st'
                \<or> solve_iteration env cfg cell_z src dt cpsi iter st = Return SolveOk st')
      \<and> (\<forall>cell<length cell_z. length cell_z \<le> length (cell_pressure_scalar fresh) \<longrightarrow>
            cell_pressure_scalar st' ! cell
              = relax_weight_pressure_iteration cfg * cell_pressure_scalar fresh ! cell
                + (1 - relax_weight_pressure_iteration cfg) * cell_pressure_scalar st ! cell)
      \<and> (0 < iter \<longrightarrow>
           (\<forall>face<numFaces env. numFaces env \<le> length (face_pressure_scalar fresh) \<longrightarrow>
                numFaces env \<le> length (face_flux fresh) \<longrightarrow>
              face_pressure_scalar st' ! face
                = relax_weight_pressure_iteration cfg * face_pressure_scalar fresh ! face
                  + (1 - relax_weight_pressure_iteration cfg) * face_pressure_scalar st ! face
              \<and> face_flux st' ! face
                = relax_weight_pressure_iteration cfg * face_flux fresh ! face
                  + (1 - relax_weight_pressure_iteration cfg) * face_flux st ! face))
      \<and> (iter \<le> 0 \<longrightarrow>
           face_pressure_scalar st' = face_pressure_scalar fresh \<and> face_flux st' = face_flux fresh)"
proof -
  let ?relaxed = "relaxation cfg (length cell_z) (numFaces env) iter fresh"
  let ?st' = "publish env cfg (length cell_z) (numFaces env) ?relaxed"
  note start = iteration_fresh_start [OF assms(2)]
  note pub = publish_keeps [of env cfg "length cell_z" "numFaces env" ?relaxed]
  have it: "solve_iteration env cfg cell_z src dt cpsi iter st = convergence_test cfg ?st'"
    by (rule iteration_after_fresh [OF assms(2)])
  have outcome: "solve_iteration env cfg cell_z src dt cpsi iter st = Continue ?st'
                \<or> solve_iteration env cfg cell_z src dt cpsi iter st = Return SolveOk ?st'"
    unfolding it by (simp add: convergence_test_def Let_def)
  have cells: "\<forall>cell<length cell_z. length cell_z \<le> length (cell_pressure_scalar fresh) \<longrightarrow>
            cell_pressure_scalar ?st' ! cell
              = relax_weight_pressure_iteration cfg * cell_pressure_scalar fresh ! cell
                + (1 - relax_weight_pressure_iteration cfg) * cell_pressure_scalar st ! cell"
    using relaxation_cells [OF assms(1), of _ "length cell_z" fresh "numFaces env" iter] start pub
    by simp
  have faces: "0 < iter \<longrightarrow>
           (\<forall>face<numFaces env. numFaces env \<le> length (face_pressure_scalar fresh) \<longrightarrow>
                numFaces env \<le> length (face_flux fresh) \<longrightarrow>
              face_pressure_scalar ?st' ! face
                = relax_weight_pressure_iteration cfg * face_pressure_scalar fresh ! face
                  + (1 - relax_weight_pressure_iteration cfg) * face_pressure_scalar st ! face
              \<and> face_flux ?st' ! face
                = relax_weight_pressure_iteration cfg * face_flux fresh ! face
                  + (1 - relax_weight_pressure_iteration cfg) * face_flux st ! face)"
    using relaxation_faces [OF assms(1), of iter _ "numFaces env" fresh "length cell_z"] start pub
    by simp
  have first: "iter \<le> 0 \<longrightarrow>
           face_pressure_scalar ?st' = face_pressure_scalar fresh \<and> face_flux ?st' = face_flux fresh"
    using relaxation_first_faces [of iter cfg "length cell_z" "numFaces env" fresh] pub
    by simp
  show ?thesis
    using outcome cells faces first by blast
qed

theorem relaxation_blends_with_previous_iterate_witness:
  "\<exists>st'. (solve_iteration (demo_env True) (demo_cfg\<lparr>relax_weight_pressure_iteration := Fin (1 / 2)\<rparr>)
             [[Fin 1]] [Fin 0] (Fin 1) [Fin 0] 0 (solve_init (demo_env True) [[Fin 1]] demo_state) = Continue st'
           \<or> solve_iteration (demo_env True) (demo_cfg\<lparr>relax_weight_pressure_iteration := Fin (1 / 2)\<rparr>)
             [[Fin 1]] [Fin 0] (Fin 1) [Fin 0] 0 (solve_init (demo_env True) [[Fin 1]] demo_state)
               = Return SolveOk st')
       \<and> cell_pressure_scalar st' ! 0 = Fin (1 / 2)
       \<and> face_flux st' = [Fin 1]"
proof -
  let ?cfg = "demo_cfg\<lparr>relax_weight_pressure_iteration := Fin (1 / 2)\<rparr>"
  let ?init = "solve_init (demo_env True) [[Fin 1]] demo_state"
  have w: "dne (relax_weight_pressure_iteration ?cfg) 1"
    by (simp add: dne_def one_double_def)
  obtain fresh where f: "iteration_fresh (demo_env True) ?cfg [[Fin 1]] [Fin 0] (Fin 1) [Fin 0] 0 ?init = Some fresh"
    and c: "cell_pressure_scalar fresh = [Fin 1]" and ff: "face_flux fresh = [Fin 1]"
    by (simp add: iteration_fresh_def model_defs demo_defs)
  have old: "cell_pressure_scalar ?init = [Fin 0]"
    by (simp add: model_defs demo_defs)
  from relaxation_blends_with_previous_iterate [OF w f] c ff old show ?thesis
    by (auto simp: one_double_def minus_double_def rnd_zero)
qed

text \<open>
  Claim C3 at two injector wells with one perforation each, the perforation pressures
  being 100 and 200.  The fluid state of the second well's perforation is computed from
  the pressure 100 of the first well's perforation: \<^verbatim>\<open>computeFluidProps\<close> indexes
  \<^verbatim>\<open>perf_pressure_\<close> with the perforation number within the well, where the arrays
  \<^verbatim>\<open>perf_A_\<close>, \<^verbatim>\<open>perf_mob_\<close> and \<^verbatim>\<open>perf_sat_\<close> are indexed with the running count.
\<close>

theorem second_well_reads_first_perforation_pressure:
  "perf_pressure two_well_state = [Fin 100, Fin 200]
   \<and> perf_sat (computeFluidProps two_well_env demo_cfg (cell_pressure two_well_state)
        (face_pressure two_well_state) [[Fin 1], [Fin 1]] (Fin 1) two_well_state) = [[Fin 100], [Fin 100]]
   \<and> perf_mob (computeFluidProps two_well_env demo_cfg (cell_pressure two_well_state)
        (face_pressure two_well_state) [[Fin 1], [Fin 1]] (Fin 1) two_well_state) = [Fin 100, Fin 100]"
  by (simp add: two_well_state_def two_well_env_def computeFluidProps_def computeFluidProps_perf_def
      copy_n_def pv_const_def Let_def demo_defs numeral_2_eq_2)

end
